theory Spec2Isabelle
  imports Main "HOL-Library.Char_ord" "HOL-Library.List_Lexorder" "HOL-Library.Option_ord"
begin

section \<open>Blood bank service: data model\<close>

text \<open>
  The store is the SQLite database of \<^verbatim>\<open>main.go\<close>.  Every table is the list of its rows in
  rowid order; a nullable column is an \<open>option\<close>.  SQLite integers and Go's \<open>int\<close> are
  64-bit; they are modelled by \<open>int\<close>, which agrees with the program as long as no stored
  value leaves the 64-bit range.  Statements fail only on the constraints the schema
  declares (UNIQUE, FOREIGN KEY with \<^verbatim>\<open>foreign_keys(1)\<close>); input/output failures of the
  storage are not modelled.
\<close>

datatype error = ErrNoRows | ErrConstraint | ErrMessage string

record blood_type_row =
  bt_id :: int
  bt_type :: string

record donor_row =
  donor_id :: int
  donor_name :: string
  donor_blood_type_id :: int
  donor_phone :: "string option"
  donor_city :: "string option"
  donor_created_at :: string
  donor_deleted_at :: "string option"

record recipient_row =
  recipient_id :: int
  recipient_name :: string
  recipient_blood_type_id :: int
  recipient_phone :: "string option"
  recipient_hospital :: "string option"
  recipient_created_at :: string
  recipient_deleted_at :: "string option"

record donation_row =
  donation_id :: int
  donation_donor_id :: int
  donation_units :: int
  donation_date :: string
  donation_expiry_date :: string
  donation_deleted_at :: "string option"

record inventory_row =
  inventory_id :: int
  inventory_blood_type_id :: int
  inventory_units :: int
  inventory_deleted_at :: "string option"

record request_row =
  request_id :: int
  request_recipient_id :: int
  request_units :: int
  request_status :: string
  request_date :: string
  request_deleted_at :: "string option"

record database =
  blood_types :: "blood_type_row list"
  donors :: "donor_row list"
  recipients :: "recipient_row list"
  donations :: "donation_row list"
  inventory :: "inventory_row list"
  requests :: "request_row list"

definition empty_database :: database where
  "empty_database =
     \<lparr>blood_types = [], donors = [], recipients = [], donations = [], inventory = [],
      requests = []\<rparr>"

text \<open>\<^verbatim>\<open>INTEGER PRIMARY KEY AUTOINCREMENT\<close>: one more than the largest rowid used so far
  (no statement of the handlers removes a row).\<close>

definition next_rowid :: "int list \<Rightarrow> int" where
  "next_rowid ids = fold max ids 0 + 1"

section \<open>SQL helpers\<close>

text \<open>The range of SQLite's INTEGER and of Go's \<open>int\<close>: 64 bits, two's complement.\<close>

definition min_int64 :: int where
  "min_int64 = - 9223372036854775808"

definition max_int64 :: int where
  "max_int64 = 9223372036854775807"

definition int64 :: "int \<Rightarrow> bool" where
  "int64 n = (min_int64 \<le> n \<and> n \<le> max_int64)"

text \<open>\<^verbatim>\<open>QueryRow(...).Scan\<close>: the first row of the result, \<^verbatim>\<open>sql.ErrNoRows\<close> when it is empty.\<close>

definition query_row :: "'a list \<Rightarrow> error + 'a" where
  "query_row rs = (case rs of [] \<Rightarrow> Inl ErrNoRows | r # _ \<Rightarrow> Inr r)"

section \<open>Lookup registry\<close>

text \<open>
  Go strings are byte strings; the model covers ASCII text, on which
  \<^verbatim>\<open>strings.TrimSpace\<close> removes leading and trailing tab, line feed, vertical tab, form feed,
  carriage return and space, and \<^verbatim>\<open>strings.ToUpper\<close> maps a..z to A..Z.
\<close>

definition isSpace :: "char \<Rightarrow> bool" where
  "isSpace c = (let n = (of_char c :: nat) in (9 \<le> n \<and> n \<le> 13) \<or> n = 32)"

definition TrimSpace :: "string \<Rightarrow> string" where
  "TrimSpace s = rev (dropWhile isSpace (rev (dropWhile isSpace s)))"

definition upper_char :: "char \<Rightarrow> char" where
  "upper_char c =
     (let n = (of_char c :: nat) in if 97 \<le> n \<and> n \<le> 122 then char_of (n - 32) else c)"

definition ToUpper :: "string \<Rightarrow> string" where
  "ToUpper s = map upper_char s"

definition normalizeBloodType :: "string \<Rightarrow> string" where
  "normalizeBloodType v = ToUpper (TrimSpace v)"

text \<open>\<^verbatim>\<open>INSERT INTO blood_types (type) VALUES (?)\<close>, with \<^verbatim>\<open>type TEXT NOT NULL UNIQUE\<close>;
  the result is \<^verbatim>\<open>LastInsertId\<close>.\<close>

definition insert_blood_type :: "database \<Rightarrow> string \<Rightarrow> (error + int) \<times> database" where
  "insert_blood_type db t =
     (if list_ex (\<lambda>b. bt_type b = t) (blood_types db) then (Inl ErrConstraint, db)
      else
        (let i = next_rowid (map bt_id (blood_types db))
         in (Inr i, db\<lparr>blood_types := blood_types db @ [\<lparr>bt_id = i, bt_type = t\<rparr>]\<rparr>)))"

text \<open>\<^verbatim>\<open>SELECT id FROM blood_types WHERE type = ?\<close>\<close>

definition select_blood_type :: "database \<Rightarrow> string \<Rightarrow> error + int" where
  "select_blood_type db t =
     query_row (map bt_id (filter (\<lambda>b. bt_type b = t) (blood_types db)))"

definition getOrCreateBloodTypeID :: "database \<Rightarrow> string \<Rightarrow> (error + int) \<times> database" where
  "getOrCreateBloodTypeID db bloodType0 =
     (let bloodType = normalizeBloodType bloodType0 in
      if bloodType = [] then (Inl (ErrMessage ''blood type required''), db)
      else
        case select_blood_type db bloodType of
          Inr i \<Rightarrow> (Inr i, db)
        | Inl ErrNoRows \<Rightarrow> insert_blood_type db bloodType
        | Inl err \<Rightarrow> (Inl err, db))"

text \<open>\<^verbatim>\<open>SELECT blood_type_id FROM donors WHERE id = ? AND deleted_at IS NULL\<close>\<close>

definition getDonorBloodTypeID :: "database \<Rightarrow> int \<Rightarrow> error + int" where
  "getDonorBloodTypeID db donorID =
     (case query_row (map donor_blood_type_id
             (filter (\<lambda>d. donor_id d = donorID \<and> donor_deleted_at d = None) (donors db))) of
        Inl err \<Rightarrow> Inl err
      | Inr i \<Rightarrow> if i = 0 then Inl (ErrMessage ''missing blood type'') else Inr i)"

definition getRecipientBloodTypeID :: "database \<Rightarrow> int \<Rightarrow> error + int" where
  "getRecipientBloodTypeID db recipientID =
     (case query_row (map recipient_blood_type_id
             (filter (\<lambda>r. recipient_id r = recipientID \<and> recipient_deleted_at r = None)
                (recipients db))) of
        Inl err \<Rightarrow> Inl err
      | Inr i \<Rightarrow> if i = 0 then Inl (ErrMessage ''missing blood type'') else Inr i)"

text \<open>\<^verbatim>\<open>SELECT recipients.blood_type_id FROM requests r JOIN recipients
  ON recipients.id = r.recipient_id WHERE r.id = ? AND r.deleted_at IS NULL\<close>\<close>

definition getRequestBloodTypeID :: "database \<Rightarrow> int \<Rightarrow> error + int" where
  "getRequestBloodTypeID db requestID =
     (case query_row
             (concat (map (\<lambda>r. map recipient_blood_type_id
                                  (filter (\<lambda>p. recipient_id p = request_recipient_id r)
                                     (recipients db)))
                (filter (\<lambda>r. request_id r = requestID \<and> request_deleted_at r = None)
                   (requests db)))) of
        Inl err \<Rightarrow> Inl err
      | Inr i \<Rightarrow> if i = 0 then Inl (ErrMessage ''missing blood type'') else Inr i)"

section \<open>Inventory ledger\<close>

text \<open>
  \<^verbatim>\<open>upsertInventoryByTypeID\<close>:
  \<^verbatim>\<open>UPDATE inventory SET units = units + ?, deleted_at = NULL WHERE blood_type_id = ?\<close>,
  and when no row was affected
  \<^verbatim>\<open>INSERT INTO inventory (blood_type_id, units, deleted_at) VALUES (?, ?, NULL)\<close>
  (\<^verbatim>\<open>blood_type_id\<close> is UNIQUE and references \<^verbatim>\<open>blood_types(id)\<close>).  The sum
  \<^verbatim>\<open>units + ?\<close> is the sum of SQLite as long as it is in the 64-bit range; beyond that
  range SQLite stores a REAL, which the rows of the model do not have, so what is proved
  of the sum is proved under \<open>int64\<close>.
\<close>

definition insert_inventory :: "database \<Rightarrow> int \<Rightarrow> int \<Rightarrow> error option \<times> database" where
  "insert_inventory db bloodTypeID units =
     (if list_ex (\<lambda>r. inventory_blood_type_id r = bloodTypeID) (inventory db) then
        (Some ErrConstraint, db)
      else if \<not> list_ex (\<lambda>b. bt_id b = bloodTypeID) (blood_types db) then
        (Some ErrConstraint, db)
      else
        (None, db\<lparr>inventory := inventory db @
           [\<lparr>inventory_id = next_rowid (map inventory_id (inventory db)),
             inventory_blood_type_id = bloodTypeID, inventory_units = units,
             inventory_deleted_at = None\<rparr>]\<rparr>))"

definition upsertInventoryByTypeID :: "database \<Rightarrow> int \<Rightarrow> int \<Rightarrow> error option \<times> database" where
  "upsertInventoryByTypeID db bloodTypeID units =
     (let affected = length (filter (\<lambda>r. inventory_blood_type_id r = bloodTypeID) (inventory db));
          db1 = db\<lparr>inventory :=
                  map (\<lambda>r. if inventory_blood_type_id r = bloodTypeID
                            then r\<lparr>inventory_units := inventory_units r + units,
                                   inventory_deleted_at := None\<rparr>
                            else r) (inventory db)\<rparr>
      in if affected = 0 then insert_inventory db1 bloodTypeID units else (None, db1))"

text \<open>
  \<^verbatim>\<open>consumeInventoryByTypeID\<close>:
  \<^verbatim>\<open>SELECT units FROM inventory WHERE blood_type_id = ? AND deleted_at IS NULL\<close>, then
  \<^verbatim>\<open>UPDATE inventory SET units = units - ? WHERE blood_type_id = ?\<close>.
\<close>

definition select_inventory_units :: "database \<Rightarrow> int \<Rightarrow> error + int" where
  "select_inventory_units db bloodTypeID =
     query_row (map inventory_units
       (filter (\<lambda>r. inventory_blood_type_id r = bloodTypeID \<and> inventory_deleted_at r = None)
          (inventory db)))"

definition consumeInventoryByTypeID ::
    "database \<Rightarrow> int \<Rightarrow> int \<Rightarrow> (bool \<times> error option) \<times> database" where
  "consumeInventoryByTypeID db bloodTypeID units =
     (case select_inventory_units db bloodTypeID of
        Inl ErrNoRows \<Rightarrow> ((False, None), db)
      | Inl err \<Rightarrow> ((False, Some err), db)
      | Inr current \<Rightarrow>
          if current < units then ((False, None), db)
          else ((True, None),
                db\<lparr>inventory :=
                     map (\<lambda>r. if inventory_blood_type_id r = bloodTypeID
                               then r\<lparr>inventory_units := inventory_units r - units\<rparr>
                               else r) (inventory db)\<rparr>))"

section \<open>Request handlers\<close>

text \<open>
  A POST request, with its form values as the handler reads them: numbers as
  \<^verbatim>\<open>strconv.Atoi\<close> returns them (its error is dropped, so 0 for a field that is not a
  number), strings as sent.  The response is the
  redirect to the listing or the listing rendered with a message.  The date
  \<^verbatim>\<open>time.Now().Format("2006-01-02")\<close> is the parameter \<open>today\<close>.
\<close>

datatype request =
    PostDonors string string string string
  | PostRecipients string string string string
  | PostDonations int int string
  | PostDonationsDelete int
  | PostRequests int int
  | PostDonorsUpdate int string string string string
  | PostDonorsDelete int
  | PostRecipientsUpdate int string string string string
  | PostRecipientsDelete int
  | PostFulfill int
  | PostRequestsUpdate int int string
  | PostRequestsDelete int

datatype response = Redirect | Render string

text \<open>\<^verbatim>\<open>INSERT INTO donors (name, blood_type_id, phone, city, created_at)\<close>\<close>

definition insert_donor ::
    "database \<Rightarrow> string \<Rightarrow> int \<Rightarrow> string \<Rightarrow> string \<Rightarrow> string \<Rightarrow> error option \<times> database" where
  "insert_donor db name bloodTypeID phone city created =
     (if \<not> list_ex (\<lambda>b. bt_id b = bloodTypeID) (blood_types db) then (Some ErrConstraint, db)
      else (None, db\<lparr>donors := donors db @
              [\<lparr>donor_id = next_rowid (map donor_id (donors db)), donor_name = name,
                donor_blood_type_id = bloodTypeID, donor_phone = Some phone,
                donor_city = Some city, donor_created_at = created,
                donor_deleted_at = None\<rparr>]\<rparr>))"

definition insert_recipient ::
    "database \<Rightarrow> string \<Rightarrow> int \<Rightarrow> string \<Rightarrow> string \<Rightarrow> string \<Rightarrow> error option \<times> database" where
  "insert_recipient db name bloodTypeID phone hospital created =
     (if \<not> list_ex (\<lambda>b. bt_id b = bloodTypeID) (blood_types db) then (Some ErrConstraint, db)
      else (None, db\<lparr>recipients := recipients db @
              [\<lparr>recipient_id = next_rowid (map recipient_id (recipients db)),
                recipient_name = name, recipient_blood_type_id = bloodTypeID,
                recipient_phone = Some phone, recipient_hospital = Some hospital,
                recipient_created_at = created, recipient_deleted_at = None\<rparr>]\<rparr>))"

text \<open>\<^verbatim>\<open>INSERT INTO donations (donor_id, units, donation_date, expiry_date)\<close>\<close>

definition insert_donation ::
    "database \<Rightarrow> int \<Rightarrow> int \<Rightarrow> string \<Rightarrow> string \<Rightarrow> error option \<times> database" where
  "insert_donation db donorID units donated expiry =
     (if \<not> list_ex (\<lambda>d. donor_id d = donorID) (donors db) then (Some ErrConstraint, db)
      else (None, db\<lparr>donations := donations db @
              [\<lparr>donation_id = next_rowid (map donation_id (donations db)),
                donation_donor_id = donorID, donation_units = units, donation_date = donated,
                donation_expiry_date = expiry, donation_deleted_at = None\<rparr>]\<rparr>))"

text \<open>\<^verbatim>\<open>INSERT INTO requests (recipient_id, units, status, request_date)\<close>\<close>

definition insert_request ::
    "database \<Rightarrow> int \<Rightarrow> int \<Rightarrow> string \<Rightarrow> string \<Rightarrow> error option \<times> database" where
  "insert_request db recipientID units status requested =
     (if \<not> list_ex (\<lambda>r. recipient_id r = recipientID) (recipients db) then
        (Some ErrConstraint, db)
      else (None, db\<lparr>requests := requests db @
              [\<lparr>request_id = next_rowid (map request_id (requests db)),
                request_recipient_id = recipientID, request_units = units,
                request_status = status, request_date = requested,
                request_deleted_at = None\<rparr>]\<rparr>))"

text \<open>\<^verbatim>\<open>UPDATE donors SET name = ?, blood_type_id = ?, phone = ?, city = ? WHERE id = ?\<close>\<close>

definition update_donor ::
    "database \<Rightarrow> int \<Rightarrow> string \<Rightarrow> int \<Rightarrow> string \<Rightarrow> string \<Rightarrow> error option \<times> database" where
  "update_donor db i name bloodTypeID phone city =
     (if list_ex (\<lambda>d. donor_id d = i) (donors db)
         \<and> \<not> list_ex (\<lambda>b. bt_id b = bloodTypeID) (blood_types db) then (Some ErrConstraint, db)
      else (None, db\<lparr>donors :=
              map (\<lambda>d. if donor_id d = i
                        then d\<lparr>donor_name := name, donor_blood_type_id := bloodTypeID,
                               donor_phone := Some phone, donor_city := Some city\<rparr>
                        else d) (donors db)\<rparr>))"

definition update_recipient ::
    "database \<Rightarrow> int \<Rightarrow> string \<Rightarrow> int \<Rightarrow> string \<Rightarrow> string \<Rightarrow> error option \<times> database" where
  "update_recipient db i name bloodTypeID phone hospital =
     (if list_ex (\<lambda>r. recipient_id r = i) (recipients db)
         \<and> \<not> list_ex (\<lambda>b. bt_id b = bloodTypeID) (blood_types db) then (Some ErrConstraint, db)
      else (None, db\<lparr>recipients :=
              map (\<lambda>r. if recipient_id r = i
                        then r\<lparr>recipient_name := name, recipient_blood_type_id := bloodTypeID,
                               recipient_phone := Some phone, recipient_hospital := Some hospital\<rparr>
                        else r) (recipients db)\<rparr>))"

definition handle_donors ::
    "string \<Rightarrow> database \<Rightarrow> string \<Rightarrow> string \<Rightarrow> string \<Rightarrow> string \<Rightarrow> response \<times> database" where
  "handle_donors today db name0 bloodType0 phone0 city0 =
     (let name = TrimSpace name0; bloodType = normalizeBloodType bloodType0;
          phone = TrimSpace phone0; city = TrimSpace city0 in
      if name = [] \<or> bloodType = [] then
        (Render ''Donor name and blood type are required.'', db)
      else
        case getOrCreateBloodTypeID db bloodType of
          (Inl err, db1) \<Rightarrow> (Render ''Could not add donor.'', db1)
        | (Inr bloodTypeID, db1) \<Rightarrow>
            (case insert_donor db1 name bloodTypeID phone city today of
               (Some err, db2) \<Rightarrow> (Render ''Could not add donor.'', db2)
             | (None, db2) \<Rightarrow> (Redirect, db2)))"

definition handle_recipients ::
    "string \<Rightarrow> database \<Rightarrow> string \<Rightarrow> string \<Rightarrow> string \<Rightarrow> string \<Rightarrow> response \<times> database" where
  "handle_recipients today db name0 bloodType0 phone0 hospital0 =
     (let name = TrimSpace name0; bloodType = normalizeBloodType bloodType0;
          phone = TrimSpace phone0; hospital = TrimSpace hospital0 in
      if name = [] \<or> bloodType = [] then
        (Render ''Recipient name and blood type are required.'', db)
      else
        case getOrCreateBloodTypeID db bloodType of
          (Inl err, db1) \<Rightarrow> (Render ''Could not add recipient.'', db1)
        | (Inr bloodTypeID, db1) \<Rightarrow>
            (case insert_recipient db1 name bloodTypeID phone hospital today of
               (Some err, db2) \<Rightarrow> (Render ''Could not add recipient.'', db2)
             | (None, db2) \<Rightarrow> (Redirect, db2)))"

definition handle_donations ::
    "string \<Rightarrow> database \<Rightarrow> int \<Rightarrow> int \<Rightarrow> string \<Rightarrow> response \<times> database" where
  "handle_donations today db donorID units expiry0 =
     (let expiry = TrimSpace expiry0 in
      if donorID = 0 \<or> units \<le> 0 \<or> expiry = [] then
        (Render ''Donation requires donor, units, and expiry date.'', db)
      else
        case getDonorBloodTypeID db donorID of
          Inl err \<Rightarrow> (Render ''Donation requires a valid donor with blood type.'', db)
        | Inr bloodTypeID \<Rightarrow>
            (case insert_donation db donorID units today expiry of
               (Some err, db1) \<Rightarrow> (Render ''Could not add donation.'', db1)
             | (None, db1) \<Rightarrow>
                 (case upsertInventoryByTypeID db1 bloodTypeID units of
                    (Some err, db2) \<Rightarrow>
                      (Render ''Donation saved, but inventory update failed.'', db2)
                  | (None, db2) \<Rightarrow> (Redirect, db2))))"

text \<open>\<^verbatim>\<open>SELECT donors.blood_type_id, d.units FROM donations d JOIN donors
  ON donors.id = d.donor_id WHERE d.id = ? AND d.deleted_at IS NULL\<close>\<close>

definition select_donation :: "database \<Rightarrow> int \<Rightarrow> error + (int \<times> int)" where
  "select_donation db i =
     query_row
       (concat (map (\<lambda>d. map (\<lambda>p. (donor_blood_type_id p, donation_units d))
                            (filter (\<lambda>p. donor_id p = donation_donor_id d) (donors db)))
          (filter (\<lambda>d. donation_id d = i \<and> donation_deleted_at d = None) (donations db))))"

definition handle_donations_delete :: "string \<Rightarrow> database \<Rightarrow> int \<Rightarrow> response \<times> database" where
  "handle_donations_delete today db i =
     (if i = 0 then (Redirect, db)
      else
        case select_donation db i of
          Inl err \<Rightarrow> (Render ''Donation not found.'', db)
        | Inr (bloodTypeID, units) \<Rightarrow>
            (case consumeInventoryByTypeID db bloodTypeID units of
               ((ok, Some err), db1) \<Rightarrow> (Render ''Inventory update failed.'', db1)
             | ((ok, None), db1) \<Rightarrow>
                 if \<not> ok then
                   (Render ''Cannot delete donation because inventory is already used.'', db1)
                 else
                   (Redirect,
                    db1\<lparr>donations :=
                          map (\<lambda>d. if donation_id d = i
                                    then d\<lparr>donation_deleted_at := Some today\<rparr> else d)
                            (donations db1)\<rparr>)))"

definition handle_requests :: "string \<Rightarrow> database \<Rightarrow> int \<Rightarrow> int \<Rightarrow> response \<times> database" where
  "handle_requests today db recipientID units =
     (if recipientID = 0 \<or> units \<le> 0 then
        (Render ''Request requires recipient and units.'', db)
      else
        case getRecipientBloodTypeID db recipientID of
          Inl err \<Rightarrow> (Render ''Request requires a valid recipient with blood type.'', db)
        | Inr _ \<Rightarrow>
            (case insert_request db recipientID units ''Pending'' today of
               (Some err, db1) \<Rightarrow> (Render ''Could not add request.'', db1)
             | (None, db1) \<Rightarrow> (Redirect, db1)))"

definition handle_donors_update ::
    "database \<Rightarrow> int \<Rightarrow> string \<Rightarrow> string \<Rightarrow> string \<Rightarrow> string \<Rightarrow> response \<times> database" where
  "handle_donors_update db i name0 bloodType0 phone0 city0 =
     (let name = TrimSpace name0; bloodType = normalizeBloodType bloodType0;
          phone = TrimSpace phone0; city = TrimSpace city0 in
      if i = 0 \<or> name = [] \<or> bloodType = [] then
        (Render ''Donor update requires id, name, and blood type.'', db)
      else
        case getOrCreateBloodTypeID db bloodType of
          (Inl err, db1) \<Rightarrow> (Render ''Could not update donor.'', db1)
        | (Inr bloodTypeID, db1) \<Rightarrow>
            (case update_donor db1 i name bloodTypeID phone city of
               (Some err, db2) \<Rightarrow> (Render ''Could not update donor.'', db2)
             | (None, db2) \<Rightarrow> (Redirect, db2)))"

definition handle_donors_delete :: "string \<Rightarrow> database \<Rightarrow> int \<Rightarrow> response \<times> database" where
  "handle_donors_delete today db i =
     (if i = 0 then (Redirect, db)
      else
        (Redirect,
         db\<lparr>donors := map (\<lambda>d. if donor_id d = i then d\<lparr>donor_deleted_at := Some today\<rparr> else d)
                         (donors db)\<rparr>))"

definition handle_recipients_update ::
    "database \<Rightarrow> int \<Rightarrow> string \<Rightarrow> string \<Rightarrow> string \<Rightarrow> string \<Rightarrow> response \<times> database" where
  "handle_recipients_update db i name0 bloodType0 phone0 hospital0 =
     (let name = TrimSpace name0; bloodType = normalizeBloodType bloodType0;
          phone = TrimSpace phone0; hospital = TrimSpace hospital0 in
      if i = 0 \<or> name = [] \<or> bloodType = [] then
        (Render ''Recipient update requires id, name, and blood type.'', db)
      else
        case getOrCreateBloodTypeID db bloodType of
          (Inl err, db1) \<Rightarrow> (Render ''Could not update recipient.'', db1)
        | (Inr bloodTypeID, db1) \<Rightarrow>
            (case update_recipient db1 i name bloodTypeID phone hospital of
               (Some err, db2) \<Rightarrow> (Render ''Could not update recipient.'', db2)
             | (None, db2) \<Rightarrow> (Redirect, db2)))"

definition handle_recipients_delete :: "string \<Rightarrow> database \<Rightarrow> int \<Rightarrow> response \<times> database" where
  "handle_recipients_delete today db i =
     (if i = 0 then (Redirect, db)
      else
        (Redirect,
         db\<lparr>recipients :=
              map (\<lambda>r. if recipient_id r = i then r\<lparr>recipient_deleted_at := Some today\<rparr> else r)
                (recipients db)\<rparr>))"

text \<open>\<^verbatim>\<open>SELECT recipients.blood_type_id, r.units FROM requests r JOIN recipients
  ON recipients.id = r.recipient_id WHERE r.id = ?\<close>\<close>

definition select_request :: "database \<Rightarrow> int \<Rightarrow> error + (int \<times> int)" where
  "select_request db i =
     query_row
       (concat (map (\<lambda>r. map (\<lambda>p. (recipient_blood_type_id p, request_units r))
                            (filter (\<lambda>p. recipient_id p = request_recipient_id r) (recipients db)))
          (filter (\<lambda>r. request_id r = i) (requests db))))"

definition handle_fulfill :: "database \<Rightarrow> int \<Rightarrow> response \<times> database" where
  "handle_fulfill db i =
     (if i = 0 then (Redirect, db)
      else
        case select_request db i of
          Inl err \<Rightarrow> (Render ''Request not found.'', db)
        | Inr (bloodTypeID, units) \<Rightarrow>
            (case consumeInventoryByTypeID db bloodTypeID units of
               ((ok, Some err), db1) \<Rightarrow> (Render ''Inventory update failed.'', db1)
             | ((ok, None), db1) \<Rightarrow>
                 if \<not> ok then (Render ''Not enough inventory to fulfill request.'', db1)
                 else
                   (Redirect,
                    db1\<lparr>requests :=
                          map (\<lambda>r. if request_id r = i
                                    then r\<lparr>request_status := ''Fulfilled''\<rparr> else r)
                            (requests db1)\<rparr>)))"

text \<open>\<^verbatim>\<open>SELECT units, status FROM requests WHERE id = ? AND deleted_at IS NULL\<close>\<close>

definition select_request_units_status :: "database \<Rightarrow> int \<Rightarrow> error + (int \<times> string)" where
  "select_request_units_status db i =
     query_row (map (\<lambda>r. (request_units r, request_status r))
       (filter (\<lambda>r. request_id r = i \<and> request_deleted_at r = None) (requests db)))"

text \<open>\<^verbatim>\<open>UPDATE requests SET units = ?, status = ? WHERE id = ?\<close>\<close>

definition update_request :: "database \<Rightarrow> int \<Rightarrow> int \<Rightarrow> string \<Rightarrow> database" where
  "update_request db i units status =
     db\<lparr>requests :=
          map (\<lambda>r. if request_id r = i
                    then r\<lparr>request_units := units, request_status := status\<rparr> else r)
            (requests db)\<rparr>"

definition handle_requests_update ::
    "database \<Rightarrow> int \<Rightarrow> int \<Rightarrow> string \<Rightarrow> response \<times> database" where
  "handle_requests_update db i units status0 =
     (let status = TrimSpace status0 in
      if i = 0 \<or> units \<le> 0 \<or> status = [] then
        (Render ''Request update requires id, units, and status.'', db)
      else
        case select_request_units_status db i of
          Inl err \<Rightarrow> (Render ''Request not found.'', db)
        | Inr (oldUnits, oldStatus) \<Rightarrow>
            if oldStatus = ''Fulfilled'' \<and> (status \<noteq> ''Fulfilled'' \<or> oldUnits \<noteq> units) then
              (Render ''Cannot modify a fulfilled request.'', db)
            else if oldStatus \<noteq> ''Fulfilled'' \<and> status = ''Fulfilled'' then
              (case getRequestBloodTypeID db i of
                 Inl err \<Rightarrow> (Render ''Request is missing blood type.'', db)
               | Inr bloodTypeID \<Rightarrow>
                   (case consumeInventoryByTypeID db bloodTypeID units of
                      ((ok, Some err), db1) \<Rightarrow> (Render ''Inventory update failed.'', db1)
                    | ((ok, None), db1) \<Rightarrow>
                        if \<not> ok then (Render ''Not enough inventory to fulfill request.'', db1)
                        else (Redirect, update_request db1 i units status)))
            else (Redirect, update_request db i units status))"

text \<open>\<^verbatim>\<open>SELECT status FROM requests WHERE id = ? AND deleted_at IS NULL\<close>\<close>

definition select_request_status :: "database \<Rightarrow> int \<Rightarrow> error + string" where
  "select_request_status db i =
     query_row (map request_status
       (filter (\<lambda>r. request_id r = i \<and> request_deleted_at r = None) (requests db)))"

definition handle_requests_delete :: "string \<Rightarrow> database \<Rightarrow> int \<Rightarrow> response \<times> database" where
  "handle_requests_delete today db i =
     (if i = 0 then (Redirect, db)
      else
        case select_request_status db i of
          Inl err \<Rightarrow> (Render ''Request not found.'', db)
        | Inr status \<Rightarrow>
            if status = ''Fulfilled'' then (Render ''Cannot delete a fulfilled request.'', db)
            else
              (Redirect,
               db\<lparr>requests :=
                    map (\<lambda>r. if request_id r = i
                              then r\<lparr>request_status := ''Cancelled'',
                                     request_deleted_at := Some today\<rparr>
                              else r) (requests db)\<rparr>))"

text \<open>The router of \<^verbatim>\<open>main\<close>.\<close>

fun handle :: "string \<Rightarrow> database \<Rightarrow> request \<Rightarrow> response \<times> database" where
  "handle today db (PostDonors n b p c) = handle_donors today db n b p c"
| "handle today db (PostRecipients n b p h) = handle_recipients today db n b p h"
| "handle today db (PostDonations d u e) = handle_donations today db d u e"
| "handle today db (PostDonationsDelete i) = handle_donations_delete today db i"
| "handle today db (PostRequests r u) = handle_requests today db r u"
| "handle today db (PostDonorsUpdate i n b p c) = handle_donors_update db i n b p c"
| "handle today db (PostDonorsDelete i) = handle_donors_delete today db i"
| "handle today db (PostRecipientsUpdate i n b p h) = handle_recipients_update db i n b p h"
| "handle today db (PostRecipientsDelete i) = handle_recipients_delete today db i"
| "handle today db (PostFulfill i) = handle_fulfill db i"
| "handle today db (PostRequestsUpdate i u s) = handle_requests_update db i u s"
| "handle today db (PostRequestsDelete i) = handle_requests_delete today db i"

text \<open>Serving a sequence of requests, one after the other.\<close>

fun serve :: "string \<Rightarrow> database \<Rightarrow> request list \<Rightarrow> database" where
  "serve today db [] = db"
| "serve today db (q # qs) = serve today (snd (handle today db q)) qs"

text \<open>The balance of a blood-type reference: the units of its active inventory row.\<close>

definition balance :: "database \<Rightarrow> int \<Rightarrow> int option" where
  "balance db ref = (case select_inventory_units db ref of Inl _ \<Rightarrow> None | Inr u \<Rightarrow> Some u)"

section \<open>Migration to the normalized schema\<close>

text \<open>
  The migration reads and rebuilds whole tables, so its store is SQLite's catalogue: a
  table name is bound to a table or to nothing, and a table has one of the layouts the
  program ever creates, the legacy ones (with the text column \<^verbatim>\<open>blood_type\<close>) or the
  normalized ones.  Rows hold values of the declared column types, in rowid order.  Every
  layout declares \<^verbatim>\<open>id INTEGER PRIMARY KEY AUTOINCREMENT\<close>, so the catalogue also holds the
  table \<^verbatim>\<open>sqlite_sequence\<close>, in which SQLite keeps for a table name the largest rowid it has
  ever taken for that table: a map from names to that number (SQLite keeps at most one
  row for a name, and removes the row of a table that is dropped).
\<close>

record legacy_donor_row =
  ldonor_id :: int
  ldonor_name :: string
  ldonor_blood_type :: "string option"
  ldonor_phone :: "string option"
  ldonor_city :: "string option"
  ldonor_created_at :: string
  ldonor_deleted_at :: "string option"

record legacy_recipient_row =
  lrecipient_id :: int
  lrecipient_name :: string
  lrecipient_blood_type :: "string option"
  lrecipient_phone :: "string option"
  lrecipient_hospital :: "string option"
  lrecipient_created_at :: string
  lrecipient_deleted_at :: "string option"

record legacy_donation_row =
  ldonation_id :: int
  ldonation_donor_id :: int
  ldonation_blood_type :: "string option"
  ldonation_units :: int
  ldonation_date :: string
  ldonation_expiry_date :: string
  ldonation_deleted_at :: "string option"

record legacy_inventory_row =
  linventory_id :: int
  linventory_blood_type :: "string option"
  linventory_units :: int
  linventory_deleted_at :: "string option"

record legacy_request_row =
  lrequest_id :: int
  lrequest_recipient_id :: int
  lrequest_blood_type :: "string option"
  lrequest_units :: int
  lrequest_status :: string
  lrequest_date :: string
  lrequest_deleted_at :: "string option"

datatype table =
    BloodTypes "blood_type_row list"
  | LegacyDonors "legacy_donor_row list"
  | Donors "donor_row list"
  | LegacyRecipients "legacy_recipient_row list"
  | Recipients "recipient_row list"
  | LegacyDonations "legacy_donation_row list"
  | Donations "donation_row list"
  | LegacyInventory "legacy_inventory_row list"
  | Inventory "inventory_row list"
  | LegacyRequests "legacy_request_row list"
  | Requests "request_row list"




















text \<open>The rows of the table bound to \<^verbatim>\<open>blood_types\<close>, for a statement that uses its
  columns \<^verbatim>\<open>id\<close> and \<^verbatim>\<open>type\<close>.\<close>

definition blood_type_rows :: "table option \<Rightarrow> error + blood_type_row list" where
  "blood_type_rows tb =
     (case tb of
        Some (BloodTypes bts) \<Rightarrow> Inr bts
      | Some _ \<Rightarrow> Inl (ErrMessage ''no such column'')
      | None \<Rightarrow> Inl (ErrMessage ''no such table''))"































section \<open>Notions of the specification\<close>

text \<open>The units stored for a reference with no active inventory row count as zero.\<close>

definition stock :: "database \<Rightarrow> int \<Rightarrow> int" where
  "stock db ref = (case balance db ref of None \<Rightarrow> 0 | Some u \<Rightarrow> u)"

text \<open>The units of the active donations of a blood type, the type of a donation being
  that of its donor (the join of the listing query), and the units of the Fulfilled
  requests of a blood type, the type of a request being that of its recipient.\<close>

definition donated_units :: "database \<Rightarrow> int \<Rightarrow> int" where
  "donated_units db ref =
     sum_list (concat (map (\<lambda>d. map (\<lambda>p. donation_units d)
                                   (filter (\<lambda>p. donor_id p = donation_donor_id d
                                                 \<and> donor_blood_type_id p = ref) (donors db)))
       (filter (\<lambda>d. donation_deleted_at d = None) (donations db))))"

definition fulfilled_units :: "database \<Rightarrow> int \<Rightarrow> int" where
  "fulfilled_units db ref =
     sum_list (concat (map (\<lambda>r. map (\<lambda>p. request_units r)
                                   (filter (\<lambda>p. recipient_id p = request_recipient_id r
                                                 \<and> recipient_blood_type_id p = ref)
                                      (recipients db)))
       (filter (\<lambda>r. request_status r = ''Fulfilled'') (requests db))))"

definition ledger_invariant :: "database \<Rightarrow> int \<Rightarrow> bool" where
  "ledger_invariant db ref =
     (stock db ref = donated_units db ref - fulfilled_units db ref \<and> 0 \<le> stock db ref)"

text \<open>The constraints of the inventory table that the ledger relies on: one row per
  blood-type reference, and no negative units.\<close>

definition sound_inventory :: "inventory_row list \<Rightarrow> bool" where
  "sound_inventory rows =
     (distinct (map inventory_blood_type_id rows) \<and> list_all (\<lambda>r. 0 \<le> inventory_units r) rows)"

text \<open>The status of the request with a given id, soft-deleted or not.\<close>

definition status_of :: "database \<Rightarrow> int \<Rightarrow> error + string" where
  "status_of db i =
     query_row (map request_status (filter (\<lambda>r. request_id r = i) (requests db)))"

text \<open>The kinds of rejection of the specification, and the messages with which the
  handlers report each.\<close>

datatype rejection =
  InvalidArgument | NotFound | InsufficientInventory | ImmutableFulfilledRequest
  | StorageFailure

fun rejection_messages :: "rejection \<Rightarrow> string list" where
  "rejection_messages InvalidArgument =
     [''Donor name and blood type are required.'',
      ''Recipient name and blood type are required.'',
      ''Donation requires donor, units, and expiry date.'',
      ''Request requires recipient and units.'',
      ''Donor update requires id, name, and blood type.'',
      ''Recipient update requires id, name, and blood type.'',
      ''Request update requires id, units, and status.'']"
| "rejection_messages NotFound =
     [''Donation requires a valid donor with blood type.'',
      ''Donation not found.'',
      ''Request requires a valid recipient with blood type.'',
      ''Request not found.'',
      ''Request is missing blood type.'']"
| "rejection_messages InsufficientInventory =
     [''Cannot delete donation because inventory is already used.'',
      ''Not enough inventory to fulfill request.'']"
| "rejection_messages ImmutableFulfilledRequest =
     [''Cannot modify a fulfilled request.'',
      ''Cannot delete a fulfilled request.'']"
| "rejection_messages StorageFailure =
     [''Could not add donor.'',
      ''Could not add recipient.'',
      ''Could not add donation.'',
      ''Donation saved, but inventory update failed.'',
      ''Inventory update failed.'',
      ''Could not delete donation.'',
      ''Could not add request.'',
      ''Could not update donor.'',
      ''Could not delete donor.'',
      ''Could not update recipient.'',
      ''Could not delete recipient.'',
      ''Could not update request.'',
      ''Could not delete request.'']"

definition rejected_as :: "rejection \<Rightarrow> response \<Rightarrow> bool" where
  "rejected_as k resp =
     (case resp of Redirect \<Rightarrow> False | Render m \<Rightarrow> m \<in> set (rejection_messages k))"

definition business_rule_rejection :: "response \<Rightarrow> bool" where
  "business_rule_rejection resp =
     (rejected_as InvalidArgument resp \<or> rejected_as NotFound resp
      \<or> rejected_as InsufficientInventory resp \<or> rejected_as ImmutableFulfilledRequest resp)"

text \<open>The requests for which the invariant of the ledger is kept: every request but a
  fulfilment of a request that is already Fulfilled, and but an update of a donor or a
  recipient (which may move their donations and requests to another blood type).\<close>

fun permitted :: "database \<Rightarrow> request \<Rightarrow> bool" where
  "permitted db (PostFulfill i) = (status_of db i \<noteq> Inr ''Fulfilled'')"
| "permitted db (PostDonorsUpdate i n b p c) = False"
| "permitted db (PostRecipientsUpdate i n b p h) = False"
| "permitted db q = True"

fun permitted_run :: "string \<Rightarrow> database \<Rightarrow> request list \<Rightarrow> bool" where
  "permitted_run today db [] = True"
| "permitted_run today db (q # qs) =
     (permitted db q \<and> permitted_run today (snd (handle today db q)) qs)"

text \<open>The keys of the schema on a store: the primary keys of donors, recipients,
  donations and requests, and the foreign keys of donations, requests and donors.\<close>

definition well_formed :: "database \<Rightarrow> bool" where
  "well_formed db =
     (distinct (map donor_id (donors db)) \<and> distinct (map recipient_id (recipients db))
      \<and> distinct (map donation_id (donations db)) \<and> distinct (map request_id (requests db))
      \<and> list_all (\<lambda>d. donation_donor_id d \<in> set (map donor_id (donors db))) (donations db)
      \<and> list_all (\<lambda>r. request_recipient_id r \<in> set (map recipient_id (recipients db)))
            (requests db)
      \<and> list_all (\<lambda>p. donor_blood_type_id p \<in> set (map bt_id (blood_types db))) (donors db))"

text \<open>The share of a donation in the donated units of a blood type (its units for every
  donor row that the join gives it with that type), and the share of a request in the
  fulfilled units.\<close>

definition donation_share :: "donor_row list \<Rightarrow> int \<Rightarrow> donation_row \<Rightarrow> int" where
  "donation_share ps ref d =
     sum_list (map (\<lambda>p. donation_units d)
       (filter (\<lambda>p. donor_id p = donation_donor_id d \<and> donor_blood_type_id p = ref) ps))"

definition request_share :: "recipient_row list \<Rightarrow> int \<Rightarrow> request_row \<Rightarrow> int" where
  "request_share ps ref r =
     sum_list (map (\<lambda>p. request_units r)
       (filter (\<lambda>p. recipient_id p = request_recipient_id r \<and> recipient_blood_type_id p = ref) ps))"

text \<open>The stores in which the ledger agrees with the donations and the requests: the
  keys hold, the inventory has one row per reference, none negative and none
  soft-deleted, and every stock is the donated units less the fulfilled units.\<close>

definition consistent :: "database \<Rightarrow> bool" where
  "consistent db =
     (well_formed db \<and> sound_inventory (inventory db)
      \<and> list_all (\<lambda>r. inventory_deleted_at r = None) (inventory db)
      \<and> (\<forall>ref. stock db ref = donated_units db ref - fulfilled_units db ref))"

text \<open>A store used to run the operations on concrete inputs: one donor and one
  recipient of type O+, a donation of 4 units, a Pending request for 5 units, a
  Fulfilled request for 3 units, and a soft-deleted inventory row for AB-.\<close>

definition example_database :: database where
  "example_database =
     \<lparr>blood_types = [\<lparr>bt_id = 1, bt_type = ''O+''\<rparr>, \<lparr>bt_id = 2, bt_type = ''AB-''\<rparr>],
      donors = [\<lparr>donor_id = 1, donor_name = ''Ann'', donor_blood_type_id = 1,
                 donor_phone = Some ''555'', donor_city = Some ''Pune'',
                 donor_created_at = ''2026-01-01'', donor_deleted_at = None\<rparr>],
      recipients = [\<lparr>recipient_id = 1, recipient_name = ''Bob'', recipient_blood_type_id = 1,
                     recipient_phone = Some ''556'', recipient_hospital = Some ''City'',
                     recipient_created_at = ''2026-01-01'', recipient_deleted_at = None\<rparr>],
      donations = [\<lparr>donation_id = 1, donation_donor_id = 1, donation_units = 4,
                    donation_date = ''2026-01-02'', donation_expiry_date = ''2026-03-01'',
                    donation_deleted_at = None\<rparr>],
      inventory = [\<lparr>inventory_id = 1, inventory_blood_type_id = 1, inventory_units = 4,
                    inventory_deleted_at = None\<rparr>,
                   \<lparr>inventory_id = 2, inventory_blood_type_id = 2, inventory_units = 7,
                    inventory_deleted_at = Some ''2026-01-03''\<rparr>],
      requests = [\<lparr>request_id = 1, request_recipient_id = 1, request_units = 5,
                   request_status = ''Pending'', request_date = ''2026-01-02'',
                   request_deleted_at = None\<rparr>,
                  \<lparr>request_id = 2, request_recipient_id = 1, request_units = 3,
                   request_status = ''Fulfilled'', request_date = ''2026-01-02'',
                   request_deleted_at = None\<rparr>]\<rparr>"



section \<open>The debit operation\<close>

lemma balance_eq:
  "balance db ref =
     (case filter (\<lambda>r. inventory_blood_type_id r = ref \<and> inventory_deleted_at r = None)
             (inventory db) of
        [] \<Rightarrow> None
      | r # _ \<Rightarrow> Some (inventory_units r))"
  by (simp add: balance_def select_inventory_units_def query_row_def split: list.splits)

lemma filter_active_debited:
  fixes xs :: "inventory_row list"
  shows "filter (\<lambda>x. inventory_blood_type_id x = r \<and> inventory_deleted_at x = None)
           (map (\<lambda>x. if inventory_blood_type_id x = ref
                      then x\<lparr>inventory_units := inventory_units x - units\<rparr> else x) xs) =
         map (\<lambda>x. if inventory_blood_type_id x = ref
                    then x\<lparr>inventory_units := inventory_units x - units\<rparr> else x)
           (filter (\<lambda>x. inventory_blood_type_id x = r \<and> inventory_deleted_at x = None) xs)"
  by (induction xs) auto

lemma balance_debited:
  "balance (db\<lparr>inventory := map (\<lambda>r. if inventory_blood_type_id r = ref
                                      then r\<lparr>inventory_units := inventory_units r - units\<rparr>
                                      else r) (inventory db)\<rparr>) r =
   (if r = ref then map_option (\<lambda>b. b - units) (balance db ref) else balance db r)"
proof (cases "filter (\<lambda>x. inventory_blood_type_id x = r \<and> inventory_deleted_at x = None)
                (inventory db)")
  case Nil
  then show ?thesis by (auto simp add: balance_eq filter_active_debited)
next
  case (Cons x xs)
  then have "inventory_blood_type_id x = r"
    by (metis (mono_tags, lifting) list.set_intros(1) mem_Collect_eq set_filter)
  with Cons show ?thesis by (auto simp add: balance_eq filter_active_debited)
qed

lemma consume_without_balance:
  "balance db ref = None \<Longrightarrow> consumeInventoryByTypeID db ref units = ((False, None), db)"
  by (auto simp: balance_def consumeInventoryByTypeID_def select_inventory_units_def
        query_row_def split: sum.splits error.splits list.splits)

lemma consume_with_balance:
  "balance db ref = Some b \<Longrightarrow>
   consumeInventoryByTypeID db ref units =
     (if b < units then ((False, None), db)
      else ((True, None),
            db\<lparr>inventory := map (\<lambda>r. if inventory_blood_type_id r = ref
                                      then r\<lparr>inventory_units := inventory_units r - units\<rparr>
                                      else r) (inventory db)\<rparr>))"
  by (auto simp: balance_def consumeInventoryByTypeID_def split: sum.splits error.splits)

lemma consume_no_error: "snd (fst (consumeInventoryByTypeID db ref units)) = None"
  by (cases "balance db ref") (simp_all add: consume_without_balance consume_with_balance)

lemma consume_refused:
  "consumeInventoryByTypeID db ref units = ((False, e), db') \<Longrightarrow> db' = db"
  by (auto simp: consumeInventoryByTypeID_def split: sum.splits error.splits if_splits)

text \<open>
  Claim C2.  The debit \<^verbatim>\<open>consumeInventoryByTypeID\<close> returns false and leaves the whole
  store as it is when the reference has no active balance row or its balance is below the
  units asked for; otherwise it returns true, the balance of the reference goes down by
  exactly the units, no other balance changes, and no other table is touched.
\<close>

theorem consumeInventoryByTypeID_debit:
  "(balance db ref = None \<or> (\<exists>b. balance db ref = Some b \<and> b < units) \<longrightarrow>
      consumeInventoryByTypeID db ref units = ((False, None), db)) \<and>
   (\<forall>b. balance db ref = Some b \<and> units \<le> b \<longrightarrow>
      fst (consumeInventoryByTypeID db ref units) = (True, None) \<and>
      balance (snd (consumeInventoryByTypeID db ref units)) ref = Some (b - units) \<and>
      (\<forall>r. r \<noteq> ref \<longrightarrow>
         balance (snd (consumeInventoryByTypeID db ref units)) r = balance db r) \<and>
      (snd (consumeInventoryByTypeID db ref units))\<lparr>inventory := inventory db\<rparr> = db)"
  using consume_without_balance [of db ref units]
  by (auto simp: consume_with_balance balance_debited)

theorem consumeInventoryByTypeID_debit_witness:
  "balance example_database 1 = Some 4 \<and> balance example_database 2 = None
   \<and> consumeInventoryByTypeID example_database 1 5 = ((False, None), example_database)
   \<and> consumeInventoryByTypeID example_database 2 1 = ((False, None), example_database)
   \<and> fst (consumeInventoryByTypeID example_database 1 3) = (True, None)
   \<and> balance (snd (consumeInventoryByTypeID example_database 1 3)) 1 = Some 1
   \<and> balance (snd (consumeInventoryByTypeID example_database 1 3)) 2 = balance example_database 2"
proof -
  have b1: "balance example_database 1 = Some 4" by code_simp
  have b2: "balance example_database 2 = None" by code_simp
  show ?thesis
    using b1 b2 consumeInventoryByTypeID_debit [of example_database 1 5]
      consumeInventoryByTypeID_debit [of example_database 2 1]
      consumeInventoryByTypeID_debit [of example_database 1 3]
    by simp
qed

text \<open>
  Claim C10.  When the inventory rows of a reference exist but are all soft-deleted, the
  debit answers as for a missing row: false, nothing changed, whatever units are asked
  for and whatever units the soft-deleted row stores.
\<close>

theorem consume_soft_deleted_row:
  assumes "filter (\<lambda>r. inventory_blood_type_id r = ref) (inventory db) \<noteq> []"
    and "filter (\<lambda>r. inventory_blood_type_id r = ref \<and> inventory_deleted_at r = None)
           (inventory db) = []"
  shows "consumeInventoryByTypeID db ref units = ((False, None), db)
       \<and> fst (consumeInventoryByTypeID db ref units) =
           fst (consumeInventoryByTypeID
                  (db\<lparr>inventory := filter (\<lambda>r. inventory_blood_type_id r \<noteq> ref)
                                       (inventory db)\<rparr>) ref units)"
proof -
  have "balance db ref = None"
    using assms(2) by (simp add: balance_eq)
  moreover have "balance (db\<lparr>inventory := filter (\<lambda>r. inventory_blood_type_id r \<noteq> ref)
                                            (inventory db)\<rparr>) ref = None"
    by (simp add: balance_eq)
  ultimately show ?thesis
    by (simp add: consume_without_balance)
qed

theorem consume_soft_deleted_row_witness:
  "filter (\<lambda>r. inventory_blood_type_id r = 2) (inventory example_database) \<noteq> []
   \<and> filter (\<lambda>r. inventory_blood_type_id r = 2 \<and> inventory_deleted_at r = None)
        (inventory example_database) = []
   \<and> map inventory_units (filter (\<lambda>r. inventory_blood_type_id r = 2) (inventory example_database))
       = [7]
   \<and> consumeInventoryByTypeID example_database 2 5 = ((False, None), example_database)"
proof -
  have h1: "filter (\<lambda>r. inventory_blood_type_id r = 2) (inventory example_database) \<noteq> []"
    by (simp add: example_database_def)
  have h2: "filter (\<lambda>r. inventory_blood_type_id r = 2 \<and> inventory_deleted_at r = None)
              (inventory example_database) = []"
    by (simp add: example_database_def)
  have h3: "map inventory_units
              (filter (\<lambda>r. inventory_blood_type_id r = 2) (inventory example_database)) = [7]"
    by (simp add: example_database_def)
  show ?thesis
    using h1 h2 h3 consume_soft_deleted_row [OF h1 h2, of 5] by simp
qed

section \<open>Rejections\<close>

lemma rejection_donors:
  "business_rule_rejection (fst (handle_donors today db n b p c)) \<Longrightarrow>
   snd (handle_donors today db n b p c) = db"
  by (auto simp: handle_donors_def Let_def business_rule_rejection_def rejected_as_def
        split: if_splits prod.splits sum.splits option.splits)

lemma rejection_recipients:
  "business_rule_rejection (fst (handle_recipients today db n b p h)) \<Longrightarrow>
   snd (handle_recipients today db n b p h) = db"
  by (auto simp: handle_recipients_def Let_def business_rule_rejection_def rejected_as_def
        split: if_splits prod.splits sum.splits option.splits)

lemma rejection_donations:
  "business_rule_rejection (fst (handle_donations today db d u e)) \<Longrightarrow>
   snd (handle_donations today db d u e) = db"
  by (auto simp: handle_donations_def Let_def business_rule_rejection_def rejected_as_def
        split: if_splits prod.splits sum.splits option.splits)

lemma rejection_donations_delete:
  "business_rule_rejection (fst (handle_donations_delete today db i)) \<Longrightarrow>
   snd (handle_donations_delete today db i) = db"
  by (auto simp: handle_donations_delete_def business_rule_rejection_def rejected_as_def
        split: if_splits prod.splits sum.splits option.splits dest: consume_refused)

lemma rejection_requests:
  "business_rule_rejection (fst (handle_requests today db r u)) \<Longrightarrow>
   snd (handle_requests today db r u) = db"
  by (auto simp: handle_requests_def business_rule_rejection_def rejected_as_def
        split: if_splits prod.splits sum.splits option.splits)

lemma rejection_donors_update:
  "business_rule_rejection (fst (handle_donors_update db i n b p c)) \<Longrightarrow>
   snd (handle_donors_update db i n b p c) = db"
  by (auto simp: handle_donors_update_def Let_def business_rule_rejection_def rejected_as_def
        split: if_splits prod.splits sum.splits option.splits)

lemma rejection_recipients_update:
  "business_rule_rejection (fst (handle_recipients_update db i n b p h)) \<Longrightarrow>
   snd (handle_recipients_update db i n b p h) = db"
  by (auto simp: handle_recipients_update_def Let_def business_rule_rejection_def
        rejected_as_def split: if_splits prod.splits sum.splits option.splits)

lemma rejection_fulfill:
  "business_rule_rejection (fst (handle_fulfill db i)) \<Longrightarrow> snd (handle_fulfill db i) = db"
  by (auto simp: handle_fulfill_def business_rule_rejection_def rejected_as_def
        split: if_splits prod.splits sum.splits option.splits dest: consume_refused)

lemma rejection_requests_update:
  "business_rule_rejection (fst (handle_requests_update db i u s)) \<Longrightarrow>
   snd (handle_requests_update db i u s) = db"
  by (auto simp: handle_requests_update_def Let_def business_rule_rejection_def rejected_as_def
        split: if_splits prod.splits sum.splits option.splits dest: consume_refused)

lemma rejection_requests_delete:
  "business_rule_rejection (fst (handle_requests_delete today db i)) \<Longrightarrow>
   snd (handle_requests_delete today db i) = db"
  by (auto simp: handle_requests_delete_def business_rule_rejection_def rejected_as_def
        split: if_splits prod.splits sum.splits option.splits)

lemma rejection_soft_delete:
  "\<not> business_rule_rejection (fst (handle_donors_delete today db i))"
  "\<not> business_rule_rejection (fst (handle_recipients_delete today db i))"
  by (simp_all add: handle_donors_delete_def handle_recipients_delete_def
        business_rule_rejection_def rejected_as_def)

lemma fulfill_insufficient:
  assumes "i \<noteq> 0" and "select_request db i = Inr (ref, units)" and "stock db ref < units"
  shows "handle_fulfill db i = (Render ''Not enough inventory to fulfill request.'', db)"
proof (cases "balance db ref")
  case None
  then show ?thesis
    using assms by (simp add: handle_fulfill_def consume_without_balance)
next
  case (Some b)
  then show ?thesis
    using assms by (simp add: handle_fulfill_def consume_with_balance stock_def)
qed

text \<open>
  Claim C4.  A request answered with a business-rule rejection (InvalidArgument, NotFound,
  InsufficientInventory, ImmutableFulfilledRequest) leaves the whole store as it was.  In
  particular, fulfilling a Pending request whose units exceed the stock of its blood type
  is rejected for insufficient inventory, so the request stays Pending and the inventory
  is unchanged.
\<close>

theorem business_rule_rejection_leaves_store:
  "(business_rule_rejection (fst (handle today db q)) \<longrightarrow> snd (handle today db q) = db) \<and>
   (i \<noteq> 0 \<and> select_request db i = Inr (ref, units) \<and> stock db ref < units
      \<and> status_of db i = Inr ''Pending'' \<longrightarrow>
    handle today db (PostFulfill i) =
      (Render ''Not enough inventory to fulfill request.'', db)
    \<and> business_rule_rejection (fst (handle today db (PostFulfill i))))"
proof -
  have "business_rule_rejection (fst (handle today db q)) \<Longrightarrow> snd (handle today db q) = db"
    by (cases q)
      (simp_all add: rejection_donors rejection_recipients rejection_donations
        rejection_donations_delete rejection_requests rejection_donors_update
        rejection_recipients_update rejection_fulfill rejection_requests_update
        rejection_requests_delete rejection_soft_delete)
  moreover have "handle today db (PostFulfill i) =
      (Render ''Not enough inventory to fulfill request.'', db)
    \<and> business_rule_rejection (fst (handle today db (PostFulfill i)))"
    if "i \<noteq> 0" "select_request db i = Inr (ref, units)" "stock db ref < units"
    using that fulfill_insufficient [of i db ref units]
    by (simp add: business_rule_rejection_def rejected_as_def)
  ultimately show ?thesis by blast
qed

theorem business_rule_rejection_leaves_store_witness:
  "business_rule_rejection (fst (handle ''2026-01-05'' example_database (PostFulfill 1)))
   \<and> (1::int) \<noteq> 0 \<and> select_request example_database 1 = Inr (1, 5)
   \<and> stock example_database 1 < 5 \<and> status_of example_database 1 = Inr ''Pending''
   \<and> snd (handle ''2026-01-05'' example_database (PostFulfill 1)) = example_database
   \<and> handle ''2026-01-05'' example_database (PostFulfill 1) =
       (Render ''Not enough inventory to fulfill request.'', example_database)"
proof -
  have h1: "business_rule_rejection (fst (handle ''2026-01-05'' example_database (PostFulfill 1)))"
    by code_simp
  have h2: "select_request example_database 1 = Inr (1, 5)" by code_simp
  have h3: "stock example_database 1 < 5" by code_simp
  have h4: "status_of example_database 1 = Inr ''Pending''" by code_simp
  show ?thesis
    using h1 h2 h3 h4
      business_rule_rejection_leaves_store
        [of "''2026-01-05''" example_database "PostFulfill 1" 1 1 5]
    by simp
qed

section \<open>Retiring a donation\<close>

lemma consume_result:
  "consumeInventoryByTypeID db ref units = ((ok, e), db') \<Longrightarrow>
   e = None \<and> db'\<lparr>inventory := inventory db\<rparr> = db \<and> (\<not> ok \<longrightarrow> db' = db)"
  by (cases "balance db ref")
    (auto simp: consume_without_balance consume_with_balance split: if_splits)



section \<open>Amending a Fulfilled request\<close>

lemma primary_key_row:
  assumes "distinct (map request_id rs)"
    and "filter (\<lambda>r. request_id r = i \<and> request_deleted_at r = None) rs = r0 # rest"
    and "r \<in> set rs" and "request_id r = i"
  shows "r = r0"
proof -
  from assms(2) have "r0 \<in> set (filter (\<lambda>r. request_id r = i \<and> request_deleted_at r = None) rs)"
    by simp
  then have "r0 \<in> set rs" "request_id r0 = i" by auto
  with assms(1,3,4) show ?thesis
    by (metis distinct_map inj_onD)
qed

lemma update_request_same:
  assumes "distinct (map request_id (requests db))"
    and "select_request_units_status db i = Inr (units, status)"
  shows "update_request db i units status = db"
proof -
  obtain r0 rest where f: "filter (\<lambda>r. request_id r = i \<and> request_deleted_at r = None)
                              (requests db) = r0 # rest"
    and r0: "request_units r0 = units" "request_status r0 = status"
    using assms(2)
    by (auto simp: select_request_units_status_def query_row_def split: list.splits)
  have "map (\<lambda>r. if request_id r = i
                  then r\<lparr>request_units := units, request_status := status\<rparr> else r)
          (requests db) = requests db"
    using primary_key_row [OF assms(1) f] r0 by (auto intro!: map_idI)
  then show ?thesis by (simp add: update_request_def)
qed

text \<open>
  Claim C7.  Let the request \<open>i\<close> be found by the amend handler (POST /requests/update)
  with status Fulfilled, in a table whose primary key is unique.  Whatever units and
  status are submitted, the store is unchanged.  The amendment is accepted exactly when
  it is the no-op: the submitted status (trimmed) is Fulfilled and the units are the
  current ones.  Every well-formed amendment (positive units, non-empty status) that
  differs in units or status is answered with the message of ImmutableFulfilledRequest;
  an ill-formed one never reaches that check and is refused as well.
\<close>

theorem amend_fulfilled_request:
  assumes "distinct (map request_id (requests db))"
    and "select_request_units_status db i = Inr (oldUnits, ''Fulfilled'')"
  shows "snd (handle today db (PostRequestsUpdate i units status)) = db
       \<and> (fst (handle today db (PostRequestsUpdate i units status)) = Redirect \<longleftrightarrow>
            i \<noteq> 0 \<and> 0 < units \<and> TrimSpace status = ''Fulfilled'' \<and> units = oldUnits)
       \<and> (i \<noteq> 0 \<and> 0 < units \<and> TrimSpace status \<noteq> []
            \<and> (TrimSpace status \<noteq> ''Fulfilled'' \<or> units \<noteq> oldUnits) \<longrightarrow>
          fst (handle today db (PostRequestsUpdate i units status)) =
            Render ''Cannot modify a fulfilled request.'')"
  using assms update_request_same [OF assms]
  by (auto simp: handle_requests_update_def Let_def)

theorem amend_fulfilled_request_witness:
  "distinct (map request_id (requests example_database))
   \<and> select_request_units_status example_database 2 = Inr (3, ''Fulfilled'')
   \<and> handle ''2026-01-05'' example_database (PostRequestsUpdate 2 3 ''Fulfilled'')
       = (Redirect, example_database)
   \<and> handle ''2026-01-05'' example_database (PostRequestsUpdate 2 1 ''Fulfilled'')
       = (Render ''Cannot modify a fulfilled request.'', example_database)
   \<and> handle ''2026-01-05'' example_database (PostRequestsUpdate 2 3 ''Pending'')
       = (Render ''Cannot modify a fulfilled request.'', example_database)"
proof -
  have h1: "distinct (map request_id (requests example_database))" by code_simp
  have h2: "select_request_units_status example_database 2 = Inr (3, ''Fulfilled'')"
    by code_simp
  have t1: "TrimSpace ''Fulfilled'' = ''Fulfilled''" by code_simp
  have t2: "TrimSpace ''Pending'' = ''Pending''" by code_simp
  show ?thesis
    using h1 h2
      amend_fulfilled_request [OF h1 h2, of "''2026-01-05''" 3 "''Fulfilled''"]
      amend_fulfilled_request [OF h1 h2, of "''2026-01-05''" 1 "''Fulfilled''"]
      amend_fulfilled_request [OF h1 h2, of "''2026-01-05''" 3 "''Pending''"]
    by (simp add: t1 t2 prod_eq_iff)
qed

section \<open>The credit operation\<close>

lemma filter_active_credited:
  fixes xs :: "inventory_row list"
  assumes "r \<noteq> ref"
  shows "filter (\<lambda>x. inventory_blood_type_id x = r \<and> inventory_deleted_at x = None)
           (map (\<lambda>x. if inventory_blood_type_id x = ref
                      then x\<lparr>inventory_units := inventory_units x + units,
                             inventory_deleted_at := None\<rparr> else x) xs) =
         filter (\<lambda>x. inventory_blood_type_id x = r \<and> inventory_deleted_at x = None) xs"
  using assms by (induction xs) auto

lemma filter_credited:
  fixes xs :: "inventory_row list"
  shows "filter (\<lambda>x. inventory_blood_type_id x = ref \<and> inventory_deleted_at x = None)
           (map (\<lambda>x. if inventory_blood_type_id x = ref
                      then x\<lparr>inventory_units := inventory_units x + units,
                             inventory_deleted_at := None\<rparr> else x) xs) =
         map (\<lambda>x. x\<lparr>inventory_units := inventory_units x + units,
                             inventory_deleted_at := None\<rparr>)
           (filter (\<lambda>x. inventory_blood_type_id x = ref) xs)"
  by (induction xs) auto

lemma unique_row:
  fixes xs :: "inventory_row list"
  assumes "distinct (map inventory_blood_type_id xs)" and "r \<in> set xs"
  shows "filter (\<lambda>x. inventory_blood_type_id x = inventory_blood_type_id r) xs = [r]"
  using assms
proof (induction xs)
  case Nil
  then show ?case by simp
next
  case (Cons x xs)
  show ?case
  proof (cases "x = r")
    case True
    from Cons.prems True
    have "inventory_blood_type_id r \<notin> inventory_blood_type_id ` set xs" by simp
    then have "filter (\<lambda>y. inventory_blood_type_id y = inventory_blood_type_id r) xs = []"
      by (induction xs) auto
    with True show ?thesis by simp
  next
    case False
    with Cons.prems have "r \<in> set xs" "inventory_blood_type_id x \<noteq> inventory_blood_type_id r"
      by auto
    with Cons show ?thesis by simp
  qed
qed

lemma upsert_existing:
  assumes "filter (\<lambda>x. inventory_blood_type_id x = ref) (inventory db) \<noteq> []"
  shows "upsertInventoryByTypeID db ref units =
    (None, db\<lparr>inventory :=
                  map (\<lambda>r. if inventory_blood_type_id r = ref
                            then r\<lparr>inventory_units := inventory_units r + units,
                                   inventory_deleted_at := None\<rparr>
                            else r) (inventory db)\<rparr>)"
  using assms by (simp add: upsertInventoryByTypeID_def Let_def)

lemma upsert_missing:
  assumes "filter (\<lambda>x. inventory_blood_type_id x = ref) (inventory db) = []"
  shows "upsertInventoryByTypeID db ref units =
    (if list_ex (\<lambda>b. bt_id b = ref) (blood_types db)
     then (None, db\<lparr>inventory := inventory db @
           [\<lparr>inventory_id = next_rowid (map inventory_id (inventory db)),
             inventory_blood_type_id = ref, inventory_units = units,
             inventory_deleted_at = None\<rparr>]\<rparr>)
     else (Some ErrConstraint, db))"
proof -
  have m: "map (\<lambda>r. if inventory_blood_type_id r = ref
                            then r\<lparr>inventory_units := inventory_units r + units,
                                   inventory_deleted_at := None\<rparr>
                            else r) (inventory db) = inventory db"
    using assms by (auto simp: filter_empty_conv intro!: map_idI)
  have "\<not> list_ex (\<lambda>r. inventory_blood_type_id r = ref) (inventory db)"
    using assms by (auto simp: filter_empty_conv list_ex_iff)
  then show ?thesis
    using assms by (simp add: upsertInventoryByTypeID_def Let_def m insert_inventory_def)
qed

lemma upsert_frame:
  "(snd (upsertInventoryByTypeID db ref units))\<lparr>inventory := inventory db\<rparr> = db"
  by (cases "filter (\<lambda>x. inventory_blood_type_id x = ref) (inventory db) = []")
    (simp_all add: upsert_existing upsert_missing)

lemma upsert_other_balance:
  assumes "r \<noteq> ref"
  shows "balance (snd (upsertInventoryByTypeID db ref units)) r = balance db r"
  using assms
  by (cases "filter (\<lambda>x. inventory_blood_type_id x = ref) (inventory db) = []")
    (simp_all add: upsert_existing upsert_missing balance_eq filter_active_credited)

text \<open>
  Claim C8 says that the credit rejects non-positive units.  \<^verbatim>\<open>upsertInventoryByTypeID\<close>
  has no such check: called with \<open>-3\<close> it succeeds and lowers the balance from 4 to 1.
\<close>

theorem credit_counterexample:
  "fst (upsertInventoryByTypeID example_database 1 (- 3)) = None
   \<and> snd (upsertInventoryByTypeID example_database 1 (- 3)) \<noteq> example_database
   \<and> balance example_database 1 = Some 4
   \<and> balance (snd (upsertInventoryByTypeID example_database 1 (- 3))) 1 = Some 1"
  by code_simp

text \<open>
  Claim C8, amended.  Non-positive units are rejected as InvalidArgument, with no
  mutation, by the record-donation handler (POST /donations), the only caller of the
  credit; \<^verbatim>\<open>upsertInventoryByTypeID\<close> itself checks nothing.  On a table whose
  \<^verbatim>\<open>blood_type_id\<close> is unique and for units \<open>> 0\<close>: when the reference has a balance, the
  credit succeeds and the balance goes up by the units, provided that the sum stays in
  the 64-bit range; when the reference has no row and is a blood-type id, and the rowid
  of a new row (one above the rowids of the table) is in the 64-bit range, the credit
  succeeds and creates the row with exactly the units; no other balance and no other
  table changes.  What the credit does to a reference whose only row is soft-deleted is
  not part of the statement.
\<close>

theorem credit_amended:
  assumes "distinct (map inventory_blood_type_id (inventory db))"
  shows "(units \<le> 0 \<longrightarrow>
            handle today db (PostDonations donor units expiry) =
              (Render ''Donation requires donor, units, and expiry date.'', db)) \<and>
         (\<forall>b. 0 < units \<and> balance db ref = Some b \<and> int64 b \<and> int64 (b + units) \<longrightarrow>
            fst (upsertInventoryByTypeID db ref units) = None \<and>
            balance (snd (upsertInventoryByTypeID db ref units)) ref = Some (b + units)) \<and>
         (0 < units \<and> int64 units
            \<and> int64 (next_rowid (map inventory_id (inventory db)))
            \<and> filter (\<lambda>r. inventory_blood_type_id r = ref) (inventory db) = []
            \<and> list_ex (\<lambda>b. bt_id b = ref) (blood_types db) \<longrightarrow>
            fst (upsertInventoryByTypeID db ref units) = None \<and>
            balance (snd (upsertInventoryByTypeID db ref units)) ref = Some units \<and>
            map inventory_units
              (filter (\<lambda>r. inventory_blood_type_id r = ref)
                 (inventory (snd (upsertInventoryByTypeID db ref units)))) = [units]) \<and>
         (\<forall>r. r \<noteq> ref \<longrightarrow>
            balance (snd (upsertInventoryByTypeID db ref units)) r = balance db r) \<and>
         (snd (upsertInventoryByTypeID db ref units))\<lparr>inventory := inventory db\<rparr> = db"
proof -
  have A: "units \<le> 0 \<longrightarrow>
            handle today db (PostDonations donor units expiry) =
              (Render ''Donation requires donor, units, and expiry date.'', db)"
    by (simp add: handle_donations_def Let_def)
  have B: "\<forall>b. 0 < units \<and> balance db ref = Some b \<and> int64 b \<and> int64 (b + units) \<longrightarrow>
            fst (upsertInventoryByTypeID db ref units) = None \<and>
            balance (snd (upsertInventoryByTypeID db ref units)) ref = Some (b + units)"
  proof (intro allI impI)
    fix b
    assume h: "0 < units \<and> balance db ref = Some b \<and> int64 b \<and> int64 (b + units)"
    then obtain r rest where
      f: "filter (\<lambda>x. inventory_blood_type_id x = ref \<and> inventory_deleted_at x = None)
            (inventory db) = r # rest" and u: "inventory_units r = b"
      by (auto simp: balance_eq split: list.splits)
    then have "r \<in> set (filter (\<lambda>x. inventory_blood_type_id x = ref \<and> inventory_deleted_at x = None)
            (inventory db))" by simp
    then have r: "r \<in> set (inventory db)" "inventory_blood_type_id r = ref" by simp_all
    then have "filter (\<lambda>x. inventory_blood_type_id x = ref) (inventory db) = [r]"
      using unique_row [OF assms, of r] by auto
    with u show "fst (upsertInventoryByTypeID db ref units) = None \<and>
            balance (snd (upsertInventoryByTypeID db ref units)) ref = Some (b + units)"
      by (simp add: upsert_existing balance_eq filter_credited)
  qed
  have C: "0 < units \<and> int64 units
            \<and> int64 (next_rowid (map inventory_id (inventory db)))
            \<and> filter (\<lambda>r. inventory_blood_type_id r = ref) (inventory db) = []
            \<and> list_ex (\<lambda>b. bt_id b = ref) (blood_types db) \<longrightarrow>
            fst (upsertInventoryByTypeID db ref units) = None \<and>
            balance (snd (upsertInventoryByTypeID db ref units)) ref = Some units \<and>
            map inventory_units
              (filter (\<lambda>r. inventory_blood_type_id r = ref)
                 (inventory (snd (upsertInventoryByTypeID db ref units)))) = [units]"
  proof
    assume h: "0 < units \<and> int64 units
            \<and> int64 (next_rowid (map inventory_id (inventory db)))
            \<and> filter (\<lambda>r. inventory_blood_type_id r = ref) (inventory db) = []
            \<and> list_ex (\<lambda>b. bt_id b = ref) (blood_types db)"
    then have "filter (\<lambda>r. inventory_blood_type_id r = ref \<and> inventory_deleted_at r = None)
            (inventory db) = []"
      by (auto simp: filter_empty_conv)
    with h show "fst (upsertInventoryByTypeID db ref units) = None \<and>
            balance (snd (upsertInventoryByTypeID db ref units)) ref = Some units \<and>
            map inventory_units
              (filter (\<lambda>r. inventory_blood_type_id r = ref)
                 (inventory (snd (upsertInventoryByTypeID db ref units)))) = [units]"
      by (simp add: upsert_missing balance_eq)
  qed
  have D: "\<forall>r. r \<noteq> ref \<longrightarrow>
            balance (snd (upsertInventoryByTypeID db ref units)) r = balance db r"
    by (simp add: upsert_other_balance)
  have E: "(snd (upsertInventoryByTypeID db ref units))\<lparr>inventory := inventory db\<rparr> = db"
    by (rule upsert_frame)
  show ?thesis
    by (rule conjI [OF A conjI [OF B conjI [OF C conjI [OF D E]]]])
qed

theorem credit_amended_witness:
  "distinct (map inventory_blood_type_id (inventory example_database))
   \<and> handle ''2026-01-05'' example_database (PostDonations 1 0 ''2026-03-01'') =
       (Render ''Donation requires donor, units, and expiry date.'', example_database)
   \<and> balance example_database 1 = Some 4 \<and> int64 4 \<and> int64 (4 + 2)
   \<and> balance (snd (upsertInventoryByTypeID example_database 1 2)) 1 = Some 6
   \<and> balance (snd (upsertInventoryByTypeID example_database 1 2)) 2 = balance example_database 2
   \<and> balance (snd (upsertInventoryByTypeID (example_database\<lparr>inventory := []\<rparr>) 2 5)) 2 = Some 5"
proof -
  have h: "distinct (map inventory_blood_type_id (inventory example_database))" by code_simp
  have h': "distinct (map inventory_blood_type_id (inventory (example_database\<lparr>inventory := []\<rparr>)))"
    by simp
  have b1: "balance example_database 1 = Some 4" by code_simp
  have i4: "int64 4" "int64 (4 + 2)" "int64 5"
    "int64 (next_rowid (map inventory_id (inventory (example_database\<lparr>inventory := []\<rparr>))))"
    by (simp_all add: int64_def min_int64_def max_int64_def next_rowid_def)
  have bt: "list_ex (\<lambda>b. bt_id b = 2) (blood_types example_database)" by code_simp
  have w1: "handle ''2026-01-05'' example_database (PostDonations 1 0 ''2026-03-01'') =
       (Render ''Donation requires donor, units, and expiry date.'', example_database)"
    using credit_amended [OF h, of 0 "''2026-01-05''" 1 "''2026-03-01''" 1] by simp
  have w2: "balance (snd (upsertInventoryByTypeID example_database 1 2)) 1 = Some 6"
    using credit_amended [OF h, of 2 "''2026-01-05''" 1 "''2026-03-01''" 1,
        THEN conjunct2, THEN conjunct1, THEN spec, of 4] b1 i4
    by simp
  have w3: "balance (snd (upsertInventoryByTypeID example_database 1 2)) 2
              = balance example_database 2"
    using credit_amended [OF h, of 2 "''2026-01-05''" 1 "''2026-03-01''" 1,
        THEN conjunct2, THEN conjunct2, THEN conjunct2, THEN conjunct1, THEN spec, of 2]
    by simp
  have w4: "balance (snd (upsertInventoryByTypeID (example_database\<lparr>inventory := []\<rparr>) 2 5)) 2
              = Some 5"
    using credit_amended [OF h', of 5 "''2026-01-05''" 1 "''2026-03-01''" 2,
        THEN conjunct2, THEN conjunct2, THEN conjunct1] bt i4
    by simp
  show ?thesis
    using h b1 i4(1,2) w1 w2 w3 w4 by (intro conjI)
qed

section \<open>The lookup registry\<close>

lemma getOrCreate_found:
  assumes "normalizeBloodType l \<noteq> []"
    and "select_blood_type db (normalizeBloodType l) = Inr i"
  shows "getOrCreateBloodTypeID db l = (Inr i, db)"
  using assms by (simp add: getOrCreateBloodTypeID_def Let_def)

lemma getOrCreate_created:
  assumes "normalizeBloodType l \<noteq> []"
    and "select_blood_type db (normalizeBloodType l) = Inl e"
  shows "getOrCreateBloodTypeID db l =
    (Inr (next_rowid (map bt_id (blood_types db))),
     db\<lparr>blood_types := blood_types db @
        [\<lparr>bt_id = next_rowid (map bt_id (blood_types db)),
          bt_type = normalizeBloodType l\<rparr>]\<rparr>)"
proof -
  from assms(2) have f: "filter (\<lambda>b. bt_type b = normalizeBloodType l) (blood_types db) = []"
    and e: "e = ErrNoRows"
    by (auto simp: select_blood_type_def query_row_def split: list.splits)
  from f have "\<not> list_ex (\<lambda>b. bt_type b = normalizeBloodType l) (blood_types db)"
    by (auto simp: filter_empty_conv list_ex_iff)
  with assms e show ?thesis
    by (simp add: getOrCreateBloodTypeID_def Let_def insert_blood_type_def)
qed

lemma getOrCreate_blood_types:
  "\<exists>new. blood_types (snd (getOrCreateBloodTypeID db l)) = blood_types db @ new"
proof (cases "normalizeBloodType l = []")
  case True
  then show ?thesis by (simp add: getOrCreateBloodTypeID_def)
next
  case False
  then show ?thesis
    by (cases "select_blood_type db (normalizeBloodType l)")
      (simp_all add: getOrCreate_created getOrCreate_found)
qed

lemma select_blood_type_append:
  assumes "select_blood_type db t = Inr i" and "blood_types db' = blood_types db @ new"
  shows "select_blood_type db' t = Inr i"
  using assms by (auto simp: select_blood_type_def query_row_def split: list.splits)

lemma select_after_calls:
  assumes "select_blood_type db t = Inr i"
  shows "select_blood_type (fold (\<lambda>l d. snd (getOrCreateBloodTypeID d l)) ls db) t = Inr i"
  using assms
proof (induction ls arbitrary: db)
  case Nil
  then show ?case by simp
next
  case (Cons l ls)
  obtain new where "blood_types (snd (getOrCreateBloodTypeID db l)) = blood_types db @ new"
    using getOrCreate_blood_types by blast
  with Cons.prems have "select_blood_type (snd (getOrCreateBloodTypeID db l)) t = Inr i"
    by (rule select_blood_type_append)
  then show ?case by (simp add: Cons.IH)
qed

lemma getOrCreate_result:
  assumes "normalizeBloodType l \<noteq> []"
  obtains r where "fst (getOrCreateBloodTypeID db l) = Inr r"
    and "select_blood_type (snd (getOrCreateBloodTypeID db l)) (normalizeBloodType l) = Inr r"
proof (cases "select_blood_type db (normalizeBloodType l)")
  case (Inl e)
  then have f: "filter (\<lambda>b. bt_type b = normalizeBloodType l) (blood_types db) = []"
    by (auto simp: select_blood_type_def query_row_def split: list.splits)
  show ?thesis
    by (rule that [of "next_rowid (map bt_id (blood_types db))"])
      (simp_all add: getOrCreate_created [OF assms Inl] select_blood_type_def f query_row_def)
next
  case (Inr i)
  show ?thesis
    by (rule that [of i]) (simp_all add: getOrCreate_found [OF assms Inr] Inr)
qed

text \<open>
  Claim C9.  \<^verbatim>\<open>getOrCreateBloodTypeID\<close> works on the label trimmed and uppercased.  For two
  labels with the same normalization: if it is empty, the call is refused and creates
  nothing; otherwise the first call returns a reference \<open>r\<close>, whose row stores the
  normalized label, and after any further calls of \<^verbatim>\<open>getOrCreateBloodTypeID\<close> the call
  with the second label returns the same \<open>r\<close>.  The hypothesis is symmetric in the two
  labels, so the order of the two calls does not matter.
\<close>

theorem resolveOrCreate_same_ref:
  "normalizeBloodType l1 = normalizeBloodType l2 \<longrightarrow>
     (normalizeBloodType l1 = [] \<longrightarrow>
        getOrCreateBloodTypeID db l1 = (Inl (ErrMessage ''blood type required''), db)) \<and>
     (normalizeBloodType l1 \<noteq> [] \<longrightarrow>
        (\<exists>r. fst (getOrCreateBloodTypeID db l1) = Inr r \<and>
             fst (getOrCreateBloodTypeID
                    (fold (\<lambda>l d. snd (getOrCreateBloodTypeID d l)) ls
                       (snd (getOrCreateBloodTypeID db l1))) l2) = Inr r \<and>
             list_ex (\<lambda>b. bt_id b = r \<and> bt_type b = ToUpper (TrimSpace l1))
               (blood_types (snd (getOrCreateBloodTypeID db l1)))))"
proof (intro impI conjI)
  assume "normalizeBloodType l1 = []"
  then show "getOrCreateBloodTypeID db l1 = (Inl (ErrMessage ''blood type required''), db)"
    by (simp add: getOrCreateBloodTypeID_def)
next
  assume eq: "normalizeBloodType l1 = normalizeBloodType l2" and ne: "normalizeBloodType l1 \<noteq> []"
  let ?db1 = "snd (getOrCreateBloodTypeID db l1)"
  let ?db2 = "fold (\<lambda>l d. snd (getOrCreateBloodTypeID d l)) ls ?db1"
  obtain r where r: "fst (getOrCreateBloodTypeID db l1) = Inr r"
    and s: "select_blood_type ?db1 (normalizeBloodType l1) = Inr r"
    using getOrCreate_result [OF ne] by blast
  from s have "select_blood_type ?db2 (normalizeBloodType l2) = Inr r"
    unfolding eq by (rule select_after_calls)
  moreover from ne eq have "normalizeBloodType l2 \<noteq> []" by simp
  ultimately have "getOrCreateBloodTypeID ?db2 l2 = (Inr r, ?db2)"
    by (rule getOrCreate_found [rotated])
  moreover from s
  have "list_ex (\<lambda>b. bt_id b = r \<and> bt_type b = ToUpper (TrimSpace l1)) (blood_types ?db1)"
  proof -
    from s obtain b rest where
      "filter (\<lambda>b. bt_type b = normalizeBloodType l1) (blood_types ?db1) = b # rest" "bt_id b = r"
      by (auto simp: select_blood_type_def query_row_def split: list.splits)
    then have "b \<in> set (filter (\<lambda>b. bt_type b = normalizeBloodType l1) (blood_types ?db1))"
      by simp
    then have "b \<in> set (blood_types ?db1)" "bt_type b = normalizeBloodType l1"
      by simp_all
    with \<open>bt_id b = r\<close> show ?thesis
      by (auto simp: list_ex_iff normalizeBloodType_def)
  qed
  ultimately show "\<exists>r. fst (getOrCreateBloodTypeID db l1) = Inr r \<and>
             fst (getOrCreateBloodTypeID ?db2 l2) = Inr r \<and>
             list_ex (\<lambda>b. bt_id b = r \<and> bt_type b = ToUpper (TrimSpace l1)) (blood_types ?db1)"
    using r by (intro exI [of _ r]) simp
qed

theorem resolveOrCreate_same_ref_witness:
  "normalizeBloodType '' ab- '' = normalizeBloodType ''AB-''
   \<and> normalizeBloodType '' ab- '' = ''AB-''
   \<and> fst (getOrCreateBloodTypeID empty_database '' ab- '') = Inr 1
   \<and> fst (getOrCreateBloodTypeID
             (fold (\<lambda>l d. snd (getOrCreateBloodTypeID d l)) [''o+'', ''b+'']
                (snd (getOrCreateBloodTypeID empty_database '' ab- ''))) ''AB-'') = Inr 1"
proof -
  have n1: "normalizeBloodType '' ab- '' = ''AB-''" by code_simp
  have n2: "normalizeBloodType ''AB-'' = ''AB-''" by code_simp
  have f: "fst (getOrCreateBloodTypeID empty_database '' ab- '') = Inr 1" by code_simp
  show ?thesis
    using resolveOrCreate_same_ref [of "'' ab- ''" "''AB-''" empty_database "[''o+'', ''b+'']"]
    by (simp add: n1 n2 f)
qed

section \<open>Status transitions of a request\<close>

lemma unique_request:
  fixes rs :: "request_row list"
  assumes "distinct (map request_id rs)" and "r \<in> set rs"
  shows "filter (\<lambda>x. request_id x = request_id r) rs = [r]"
  using assms
proof (induction rs)
  case Nil
  then show ?case by simp
next
  case (Cons x xs)
  show ?case
  proof (cases "x = r")
    case True
    from Cons.prems True have "request_id r \<notin> request_id ` set xs" by simp
    then have "filter (\<lambda>y. request_id y = request_id r) xs = []"
      by (induction xs) auto
    with True show ?thesis by simp
  next
    case False
    with Cons.prems have "r \<in> set xs" "request_id x \<noteq> request_id r"
      by auto
    with Cons show ?thesis by simp
  qed
qed

lemma status_of_eq:
  "status_of db i =
     (case filter (\<lambda>r. request_id r = i) (requests db) of
        [] \<Rightarrow> Inl ErrNoRows | r # _ \<Rightarrow> Inr (request_status r))"
  by (simp add: status_of_def query_row_def split: list.splits)

lemma active_request_status:
  assumes "distinct (map request_id (requests db))"
    and "filter (\<lambda>r. request_id r = i \<and> request_deleted_at r = None) (requests db) = r0 # rest"
  shows "filter (\<lambda>r. request_id r = i) (requests db) = [r0]"
proof -
  from assms(2)
  have "r0 \<in> set (filter (\<lambda>r. request_id r = i \<and> request_deleted_at r = None) (requests db))"
    by simp
  then have "r0 \<in> set (requests db)" "request_id r0 = i" by simp_all
  with unique_request [OF assms(1), of r0] show ?thesis by simp
qed

lemma filter_id_map:
  fixes rs :: "request_row list"
  assumes "\<And>r. request_id (f r) = request_id r"
  shows "filter (\<lambda>r. request_id r = i) (map (\<lambda>r. if request_id r = j then f r else r) rs) =
         map (\<lambda>r. if request_id r = j then f r else r) (filter (\<lambda>r. request_id r = i) rs)"
  using assms by (induction rs) auto

lemma status_of_update:
  assumes "\<And>r. request_id (f r) = request_id r"
  shows "status_of (db\<lparr>requests := map (\<lambda>r. if request_id r = j then f r else r) (requests db)\<rparr>) i =
     (case filter (\<lambda>r. request_id r = i) (requests db) of
        [] \<Rightarrow> Inl ErrNoRows
      | r # _ \<Rightarrow> Inr (if i = j then request_status (f r) else request_status r))"
proof (cases "filter (\<lambda>r. request_id r = i) (requests db)")
  case Nil
  then show ?thesis by (simp add: status_of_eq filter_id_map [of f, OF assms])
next
  case (Cons r rs)
  then have "r \<in> set (filter (\<lambda>r. request_id r = i) (requests db))" by simp
  then have "request_id r = i" by simp
  with Cons show ?thesis by (simp add: status_of_eq filter_id_map [of f, OF assms])
qed

lemma status_of_requests_cong: "requests db' = requests db \<Longrightarrow> status_of db' i = status_of db i"
  by (simp add: status_of_def)

lemma consume_requests:
  "consumeInventoryByTypeID db ref units = (x, db') \<Longrightarrow> requests db' = requests db"
  using consume_result [of db ref units "fst x" "snd x" db']
  by (auto dest: arg_cong [where f = requests])

lemma getOrCreate_requests:
  "getOrCreateBloodTypeID db l = (x, db') \<Longrightarrow> requests db' = requests db"
  by (auto simp: getOrCreateBloodTypeID_def Let_def insert_blood_type_def
        split: sum.splits error.splits if_splits)

lemma upsert_requests:
  "upsertInventoryByTypeID db ref units = (x, db') \<Longrightarrow> requests db' = requests db"
  using upsert_frame [of db ref units] by (auto dest: arg_cong [where f = requests])

lemma requests_unchanged:
  "requests (snd (handle_donors today db n b p c)) = requests db"
  "requests (snd (handle_recipients today db n b p h)) = requests db"
  "requests (snd (handle_donors_update db i n b p c)) = requests db"
  "requests (snd (handle_recipients_update db i n b p h)) = requests db"
  "requests (snd (handle_donors_delete today db i)) = requests db"
  "requests (snd (handle_recipients_delete today db i)) = requests db"
  by (auto simp: handle_donors_def handle_recipients_def handle_donors_update_def
        handle_recipients_update_def handle_donors_delete_def handle_recipients_delete_def
        insert_donor_def insert_recipient_def update_donor_def update_recipient_def Let_def
        split: prod.splits sum.splits option.splits if_splits dest: getOrCreate_requests)

lemma requests_unchanged_donations:
  "requests (snd (handle_donations today db d u e)) = requests db"
  by (auto simp: handle_donations_def insert_donation_def Let_def
        split: prod.splits sum.splits option.splits if_splits dest: upsert_requests)

lemma requests_unchanged_donations_delete:
  "requests (snd (handle_donations_delete today db i)) = requests db"
  by (auto simp: handle_donations_delete_def
        split: prod.splits sum.splits option.splits if_splits dest: consume_requests)


lemma status_of_updated:
  fixes db db' :: database
  assumes "requests db' = map (\<lambda>r. if request_id r = j then f r else r) (requests db)"
    and "\<And>r. request_id (f r) = request_id r"
  shows "status_of db' i =
     (case filter (\<lambda>r. request_id r = i) (requests db) of
        [] \<Rightarrow> Inl ErrNoRows
      | r # _ \<Rightarrow> Inr (if i = j then request_status (f r) else request_status r))"
proof -
  have "status_of db' i =
      status_of (db\<lparr>requests := map (\<lambda>r. if request_id r = j then f r else r) (requests db)\<rparr>) i"
    using assms(1) by (simp add: status_of_def)
  then show ?thesis by (simp add: status_of_update [of f, OF assms(2)])
qed

lemma create_requests_cases:
  "requests (snd (handle_requests today db r u)) = requests db
   \<or> (\<exists>new. requests (snd (handle_requests today db r u)) = requests db @ [new]
          \<and> request_status new = ''Pending'')"
  by (auto simp: handle_requests_def insert_request_def
        split: prod.splits sum.splits option.splits if_splits)

lemma fulfill_requests_cases:
  "requests (snd (handle_fulfill db j)) = requests db
   \<or> requests (snd (handle_fulfill db j)) =
       map (\<lambda>r. if request_id r = j then r\<lparr>request_status := ''Fulfilled''\<rparr> else r)
         (requests db)"
  by (auto simp: handle_fulfill_def
        split: prod.splits sum.splits option.splits if_splits dest: consume_requests)

lemma update_requests_cases:
  "requests (snd (handle_requests_update db j u st)) = requests db
   \<or> (TrimSpace st \<noteq> []
      \<and> (\<exists>ou os. select_request_units_status db j = Inr (ou, os)
            \<and> (os = ''Fulfilled'' \<longrightarrow> TrimSpace st = ''Fulfilled''))
      \<and> requests (snd (handle_requests_update db j u st)) =
          map (\<lambda>r. if request_id r = j
                    then r\<lparr>request_units := u, request_status := TrimSpace st\<rparr> else r)
            (requests db))"
  by (auto simp: handle_requests_update_def update_request_def Let_def
        split: prod.splits sum.splits option.splits if_splits dest: consume_requests)

lemma delete_requests_cases:
  "requests (snd (handle_requests_delete today db j)) = requests db
   \<or> ((\<exists>os. select_request_status db j = Inr os \<and> os \<noteq> ''Fulfilled'')
      \<and> requests (snd (handle_requests_delete today db j)) =
          map (\<lambda>r. if request_id r = j
                    then r\<lparr>request_status := ''Cancelled'', request_deleted_at := Some today\<rparr>
                    else r)
            (requests db))"
  by (auto simp: handle_requests_delete_def
        split: prod.splits sum.splits option.splits if_splits)

lemma active_status:
  assumes "distinct (map request_id (requests db))"
    and "select_request_status db j = Inr os"
  shows "status_of db j = Inr os"
proof -
  from assms(2) obtain r0 rest where
    f: "filter (\<lambda>r. request_id r = j \<and> request_deleted_at r = None) (requests db) = r0 # rest"
    and "request_status r0 = os"
    by (auto simp: select_request_status_def query_row_def split: list.splits)
  with active_request_status [OF assms(1) f] show ?thesis
    by (simp add: status_of_eq)
qed

lemma select_units_status:
  "select_request_units_status db j = Inr (ou, os) \<Longrightarrow> select_request_status db j = Inr os"
  by (auto simp: select_request_units_status_def select_request_status_def query_row_def
        split: list.splits)

text \<open>
  Claim C3 allows only the transitions Pending to Fulfilled and Pending to Cancelled.
  The amend handler writes whatever non-empty status is submitted to a request that is
  not Fulfilled: from the empty store, a request created Pending is amended to Cancelled
  and then amended back to Pending.
\<close>

theorem status_transitions_counterexample:
  "status_of (serve ''2026-01-05'' empty_database
       [PostRecipients ''Bob'' ''O+'' ''556'' ''City'', PostRequests 1 2,
        PostRequestsUpdate 1 2 ''Cancelled'']) 1 = Inr ''Cancelled''
   \<and> handle ''2026-01-05''
        (serve ''2026-01-05'' empty_database
           [PostRecipients ''Bob'' ''O+'' ''556'' ''City'', PostRequests 1 2,
            PostRequestsUpdate 1 2 ''Cancelled''])
        (PostRequestsUpdate 1 2 ''Pending'') =
       (Redirect,
        serve ''2026-01-05'' empty_database
          [PostRecipients ''Bob'' ''O+'' ''556'' ''City'', PostRequests 1 2])
   \<and> status_of (serve ''2026-01-05'' empty_database
       [PostRecipients ''Bob'' ''O+'' ''556'' ''City'', PostRequests 1 2]) 1 = Inr ''Pending''"
  by code_simp

text \<open>
  Claim C3, amended.  On a request table with a unique primary key, a request changes
  the status of an existing request only in these ways: POST /fulfill sets it to
  Fulfilled; POST /requests/update sets a request that is not soft-deleted and not
  Fulfilled to the submitted status, trimmed and non-empty; POST /requests/delete sets a
  request that is not soft-deleted and not Fulfilled to Cancelled.  So Fulfilled is
  terminal for amend and cancel.  A request that appears is created Pending by
  POST /requests.  Nothing is said about the status from which POST /fulfill acts.
\<close>

theorem status_transitions:
  assumes "distinct (map request_id (requests db))"
  shows "(\<forall>s s'. status_of db i = Inr s \<and> status_of (snd (handle today db q)) i = Inr s'
            \<and> s' \<noteq> s \<longrightarrow>
           (q = PostFulfill i \<and> s' = ''Fulfilled'')
           \<or> (\<exists>u st. q = PostRequestsUpdate i u st \<and> select_request_status db i = Inr s
                 \<and> s \<noteq> ''Fulfilled'' \<and> s' = TrimSpace st \<and> s' \<noteq> [])
           \<or> (q = PostRequestsDelete i \<and> select_request_status db i = Inr s
                 \<and> s \<noteq> ''Fulfilled'' \<and> s' = ''Cancelled''))
       \<and> (\<forall>e s'. status_of db i = Inl e \<and> status_of (snd (handle today db q)) i = Inr s'
            \<longrightarrow> s' = ''Pending'' \<and> (\<exists>r u. q = PostRequests r u))"
proof -
  let ?db' = "snd (handle today db q)"
  have same: False
    if "requests ?db' = requests db" "status_of db i = Inr s" "status_of ?db' i = Inr s'" "s' \<noteq> s"
    for s s'
    using that status_of_requests_cong [of ?db' db i] by simp
  have same': False
    if "requests ?db' = requests db" "status_of db i = Inl e" "status_of ?db' i = Inr s'"
    for e s'
    using that status_of_requests_cong [of ?db' db i] by simp
  have A: "(q = PostFulfill i \<and> s' = ''Fulfilled'')
           \<or> (\<exists>u st. q = PostRequestsUpdate i u st \<and> select_request_status db i = Inr s
                 \<and> s \<noteq> ''Fulfilled'' \<and> s' = TrimSpace st \<and> s' \<noteq> [])
           \<or> (q = PostRequestsDelete i \<and> select_request_status db i = Inr s
                 \<and> s \<noteq> ''Fulfilled'' \<and> s' = ''Cancelled'')"
    if st: "status_of db i = Inr s" "status_of ?db' i = Inr s'" "s' \<noteq> s" for s s'
  proof (cases q)
    case (PostRequests r u)
    from create_requests_cases [of today db r u] st PostRequests same [of s s']
    obtain new where "requests ?db' = requests db @ [new]" by auto
    with st show ?thesis by (auto simp: status_of_eq split: list.splits)
  next
    case (PostFulfill j)
    from fulfill_requests_cases [of db j] st PostFulfill same [of s s']
    have "requests ?db' = map (\<lambda>r. if request_id r = j
                                    then r\<lparr>request_status := ''Fulfilled''\<rparr> else r) (requests db)"
      by auto
    from status_of_updated [OF this, of i] st PostFulfill show ?thesis
      by (auto simp: status_of_eq split: list.splits if_splits)
  next
    case (PostRequestsUpdate j u x)
    from update_requests_cases [of db j u x] st PostRequestsUpdate same [of s s']
    obtain ou os where ne: "TrimSpace x \<noteq> []"
      and sel: "select_request_units_status db j = Inr (ou, os)"
      and ful: "os = ''Fulfilled'' \<longrightarrow> TrimSpace x = ''Fulfilled''"
      and upd: "requests ?db' = map (\<lambda>r. if request_id r = j
                    then r\<lparr>request_units := u, request_status := TrimSpace x\<rparr> else r)
            (requests db)"
      by auto
    from status_of_updated [OF upd, of i] st have ij: "i = j" and s': "s' = TrimSpace x"
      by (auto simp: status_of_eq split: list.splits if_splits)
    from active_status [OF assms select_units_status [OF sel]] st ij have "os = s" by simp
    with ij s' ne ful st(3) select_units_status [OF sel] PostRequestsUpdate show ?thesis
      by auto
  next
    case (PostRequestsDelete j)
    from delete_requests_cases [of today db j] st PostRequestsDelete same [of s s']
    obtain os where sel: "select_request_status db j = Inr os" and nf: "os \<noteq> ''Fulfilled''"
      and upd: "requests ?db' = map (\<lambda>r. if request_id r = j
                    then r\<lparr>request_status := ''Cancelled'', request_deleted_at := Some today\<rparr>
                    else r) (requests db)"
      by auto
    from status_of_updated [OF upd, of i] st have ij: "i = j" and s': "s' = ''Cancelled''"
      by (auto simp: status_of_eq split: list.splits if_splits)
    from active_status [OF assms sel] st ij have "os = s" by simp
    with ij s' nf sel PostRequestsDelete show ?thesis by auto
  qed (use st same [of s s'] in \<open>simp_all add: requests_unchanged requests_unchanged_donations
        requests_unchanged_donations_delete\<close>)
  have B: "s' = ''Pending'' \<and> (\<exists>r u. q = PostRequests r u)"
    if st: "status_of db i = Inl e" "status_of ?db' i = Inr s'" for e s'
  proof (cases q)
    case (PostRequests r u)
    from create_requests_cases [of today db r u] st PostRequests same' [of e s']
    obtain new where "requests ?db' = requests db @ [new]" "request_status new = ''Pending''"
      by auto
    with st PostRequests show ?thesis
      by (auto simp: status_of_eq split: list.splits if_splits)
  next
    case (PostFulfill j)
    from fulfill_requests_cases [of db j] st PostFulfill same' [of e s']
    have "requests ?db' = map (\<lambda>r. if request_id r = j
                                    then r\<lparr>request_status := ''Fulfilled''\<rparr> else r) (requests db)"
      by auto
    from status_of_updated [OF this, of i] st show ?thesis
      by (auto simp: status_of_eq split: list.splits if_splits)
  next
    case (PostRequestsUpdate j u x)
    from update_requests_cases [of db j u x] st PostRequestsUpdate same' [of e s']
    have "requests ?db' = map (\<lambda>r. if request_id r = j
                    then r\<lparr>request_units := u, request_status := TrimSpace x\<rparr> else r)
            (requests db)"
      by auto
    from status_of_updated [OF this, of i] st show ?thesis
      by (auto simp: status_of_eq split: list.splits if_splits)
  next
    case (PostRequestsDelete j)
    from delete_requests_cases [of today db j] st PostRequestsDelete same' [of e s']
    have "requests ?db' = map (\<lambda>r. if request_id r = j
                    then r\<lparr>request_status := ''Cancelled'', request_deleted_at := Some today\<rparr>
                    else r) (requests db)"
      by auto
    from status_of_updated [OF this, of i] st show ?thesis
      by (auto simp: status_of_eq split: list.splits if_splits)
  qed (use st same' [of e s'] in \<open>simp_all add: requests_unchanged requests_unchanged_donations
        requests_unchanged_donations_delete\<close>)
  from A B show ?thesis by blast
qed

theorem status_transitions_witness:
  "distinct (map request_id (requests example_database))
   \<and> status_of example_database 1 = Inr ''Pending''
   \<and> status_of (snd (handle ''2026-01-05'' example_database (PostRequestsDelete 1))) 1
       = Inr ''Cancelled''
   \<and> select_request_status example_database 1 = Inr ''Pending''
   \<and> status_of example_database 3 = Inl ErrNoRows
   \<and> status_of (snd (handle ''2026-01-05'' example_database (PostRequests 1 2))) 3
       = Inr ''Pending''"
proof -
  have h: "distinct (map request_id (requests example_database))" by code_simp
  have s1: "status_of example_database 1 = Inr ''Pending''" by code_simp
  have s2: "status_of (snd (handle ''2026-01-05'' example_database (PostRequestsDelete 1))) 1
              = Inr ''Cancelled''" by code_simp
  have s3: "status_of example_database 3 = Inl ErrNoRows" by code_simp
  have s4: "status_of (snd (handle ''2026-01-05'' example_database (PostRequests 1 2))) 3
              = Inr (request_status (last (requests
                  (snd (handle ''2026-01-05'' example_database (PostRequests 1 2))))))"
    by code_simp
  from status_transitions [OF h, of 1 "''2026-01-05''" "PostRequestsDelete 1"] s1 s2
  have w1: "select_request_status example_database 1 = Inr ''Pending''" by simp
  from status_transitions [OF h, of 3 "''2026-01-05''" "PostRequests 1 2"] s3 s4
  have w2: "status_of (snd (handle ''2026-01-05'' example_database (PostRequests 1 2))) 3
              = Inr ''Pending''" by simp
  from h s1 s2 s3 w1 w2 show ?thesis by simp
qed

section \<open>The ledger invariant\<close>

lemma sound_mapped:
  fixes rows :: "inventory_row list"
  assumes "distinct (map inventory_blood_type_id rows)"
    and "\<And>r. inventory_blood_type_id (f r) = inventory_blood_type_id r"
    and "\<And>r. r \<in> set rows \<Longrightarrow> 0 \<le> inventory_units (f r)"
  shows "sound_inventory (map f rows)"
proof -
  have "map inventory_blood_type_id (map f xs) = map inventory_blood_type_id xs"
    for xs :: "inventory_row list"
    using assms(2) by (induction xs) simp_all
  moreover have "list_all (\<lambda>r. 0 \<le> inventory_units r) (map f xs)"
    if "\<And>r. r \<in> set xs \<Longrightarrow> 0 \<le> inventory_units (f r)" for xs :: "inventory_row list"
    using that by (induction xs) simp_all
  ultimately show ?thesis
    unfolding sound_inventory_def using assms(1,3) by presburger
qed

lemma sound_credited:
  assumes "sound_inventory rows" and "0 \<le> units"
  shows "sound_inventory (map (\<lambda>r. if inventory_blood_type_id r = ref
                            then r\<lparr>inventory_units := inventory_units r + units,
                                   inventory_deleted_at := None\<rparr>
                            else r) rows)"
  using assms by (intro sound_mapped) (auto simp: sound_inventory_def list_all_iff)

lemma upsert_sound:
  assumes "upsertInventoryByTypeID db ref units = (e, db')" and "0 < units"
    and "sound_inventory (inventory db)"
  shows "sound_inventory (inventory db')"
proof (cases "filter (\<lambda>x. inventory_blood_type_id x = ref) (inventory db) = []")
  case False
  with assms(1) have "inventory db' = map (\<lambda>r. if inventory_blood_type_id r = ref
                            then r\<lparr>inventory_units := inventory_units r + units,
                                   inventory_deleted_at := None\<rparr>
                            else r) (inventory db)"
    by (auto simp: upsert_existing)
  with sound_credited [OF assms(3), of units ref] assms(2) show ?thesis by simp
next
  case True
  then have "ref \<notin> inventory_blood_type_id ` set (inventory db)"
    by (auto simp: filter_empty_conv)
  with assms True show ?thesis
    by (auto simp: upsert_missing sound_inventory_def split: if_splits)
qed

lemma consume_sound:
  assumes "consumeInventoryByTypeID db ref units = (x, db')"
    and "sound_inventory (inventory db)"
  shows "sound_inventory (inventory db')"
proof (cases "balance db ref")
  case None
  with assms show ?thesis by (simp add: consume_without_balance)
next
  case (Some b)
  show ?thesis
  proof (cases "b < units")
    case True
    with Some assms show ?thesis by (simp add: consume_with_balance)
  next
    case False
    let ?f = "\<lambda>r. if inventory_blood_type_id r = ref
                   then r\<lparr>inventory_units := inventory_units r - units\<rparr> else r"
    from Some False assms(1) have i: "inventory db' = map ?f (inventory db)"
      by (auto simp: consume_with_balance)
    from Some obtain r0 rest where
      f: "filter (\<lambda>r. inventory_blood_type_id r = ref \<and> inventory_deleted_at r = None)
            (inventory db) = r0 # rest" and b: "inventory_units r0 = b"
      by (auto simp: balance_eq split: list.splits)
    then have "r0 \<in> set (filter (\<lambda>r. inventory_blood_type_id r = ref \<and> inventory_deleted_at r = None)
            (inventory db))" by simp
    then have r0: "r0 \<in> set (inventory db)" "inventory_blood_type_id r0 = ref" by simp_all
    from assms(2) have d: "distinct (map inventory_blood_type_id (inventory db))"
      and p: "\<And>r. r \<in> set (inventory db) \<Longrightarrow> 0 \<le> inventory_units r"
      by (simp_all add: sound_inventory_def list_all_iff)
    have only: "r = r0" if "r \<in> set (inventory db)" "inventory_blood_type_id r = ref" for r
    proof -
      from that r0(2)
      have "r \<in> set (filter (\<lambda>x. inventory_blood_type_id x = inventory_blood_type_id r0)
                       (inventory db))" by simp
      then show ?thesis unfolding unique_row [OF d r0(1)] by simp
    qed
    have "0 \<le> inventory_units (?f r)" if "r \<in> set (inventory db)" for r
      using that only [of r] b False p [of r] by auto
    with d show ?thesis
      unfolding i by (intro sound_mapped) auto
  qed
qed

lemma handle_sound:
  assumes "sound_inventory (inventory db)"
  shows "sound_inventory (inventory (snd (handle today db q)))"
proof (cases q)
  case (PostDonations d u e)
  have "sound_inventory (inventory db')"
    if "upsertInventoryByTypeID (db\<lparr>donations := x\<rparr>) ref u = (r, db')" "0 < u" for x ref r db'
    using upsert_sound [OF that] assms by simp
  with assms PostDonations show ?thesis
    by (auto simp: handle_donations_def insert_donation_def Let_def
          split: sum.splits prod.splits option.splits if_splits)
next
  case (PostDonationsDelete i)
  with assms show ?thesis
    by (auto simp: handle_donations_delete_def
          split: sum.splits prod.splits option.splits if_splits dest: consume_sound)
next
  case (PostFulfill i)
  with assms show ?thesis
    by (auto simp: handle_fulfill_def
          split: sum.splits prod.splits option.splits if_splits dest: consume_sound)
next
  case (PostRequestsUpdate i u s)
  with assms show ?thesis
    by (auto simp: handle_requests_update_def update_request_def Let_def
          split: sum.splits prod.splits option.splits if_splits dest: consume_sound)
next
  case (PostDonors n b p c)
  have "inventory db' = inventory db" if "getOrCreateBloodTypeID db l = (x, db')" for l x db'
    using that by (auto simp: getOrCreateBloodTypeID_def Let_def insert_blood_type_def
        split: sum.splits error.splits if_splits)
  with assms PostDonors show ?thesis
    by (auto simp: handle_donors_def insert_donor_def Let_def
          split: sum.splits prod.splits option.splits if_splits)
next
  case (PostRecipients n b p h)
  have "inventory db' = inventory db" if "getOrCreateBloodTypeID db l = (x, db')" for l x db'
    using that by (auto simp: getOrCreateBloodTypeID_def Let_def insert_blood_type_def
        split: sum.splits error.splits if_splits)
  with assms PostRecipients show ?thesis
    by (auto simp: handle_recipients_def insert_recipient_def Let_def
          split: sum.splits prod.splits option.splits if_splits)
next
  case (PostDonorsUpdate i n b p c)
  have "inventory db' = inventory db" if "getOrCreateBloodTypeID db l = (x, db')" for l x db'
    using that by (auto simp: getOrCreateBloodTypeID_def Let_def insert_blood_type_def
        split: sum.splits error.splits if_splits)
  with assms PostDonorsUpdate show ?thesis
    by (auto simp: handle_donors_update_def update_donor_def Let_def
          split: sum.splits prod.splits option.splits if_splits)
next
  case (PostRecipientsUpdate i n b p h)
  have "inventory db' = inventory db" if "getOrCreateBloodTypeID db l = (x, db')" for l x db'
    using that by (auto simp: getOrCreateBloodTypeID_def Let_def insert_blood_type_def
        split: sum.splits error.splits if_splits)
  with assms PostRecipientsUpdate show ?thesis
    by (auto simp: handle_recipients_update_def update_recipient_def Let_def
          split: sum.splits prod.splits option.splits if_splits)
next
  case (PostRequests r u)
  with assms show ?thesis
    by (auto simp: handle_requests_def insert_request_def
          split: sum.splits prod.splits option.splits if_splits)
next
  case (PostDonorsDelete i)
  with assms show ?thesis by (simp add: handle_donors_delete_def)
next
  case (PostRecipientsDelete i)
  with assms show ?thesis by (simp add: handle_recipients_delete_def)
next
  case (PostRequestsDelete i)
  with assms show ?thesis
    by (auto simp: handle_requests_delete_def
          split: sum.splits prod.splits option.splits if_splits)
qed

lemma serve_sound:
  "sound_inventory (inventory db) \<Longrightarrow> sound_inventory (inventory (serve today db qs))"
  by (induction qs arbitrary: db) (simp_all add: handle_sound)

lemma sound_stock:
  assumes "sound_inventory (inventory db)"
  shows "0 \<le> stock db ref"
proof -
  from assms have "\<forall>r \<in> set (inventory db). 0 \<le> inventory_units r"
    by (simp add: sound_inventory_def list_all_iff)
  moreover have "r \<in> set (inventory db)"
    if "filter (\<lambda>r. inventory_blood_type_id r = ref \<and> inventory_deleted_at r = None)
          (inventory db) = r # rest" for r rest
  proof -
    from that
    have "r \<in> set (filter (\<lambda>r. inventory_blood_type_id r = ref \<and> inventory_deleted_at r = None)
          (inventory db))" by simp
    then show ?thesis by simp
  qed
  ultimately show ?thesis
    by (auto simp: stock_def balance_eq split: option.splits list.splits)
qed

text \<open>The half of the invariant that the code keeps: in every store reached from the empty
  one by any requests, no stock is negative.\<close>

lemma stock_never_negative: "0 \<le> stock (serve today empty_database qs) ref"
  by (rule sound_stock, rule serve_sound) (simp add: empty_database_def sound_inventory_def)

text \<open>
  Claim C1.  The invariant of the claim, on the store reached from the empty one by
  registering a donor and a recipient of type O+, recording a donation of 4 units,
  creating a request for 2 units and posting its fulfilment twice: POST /fulfill does
  not look at the status, so the second post debits again.  The stock is 0, while the
  active donations (4) less the Fulfilled requests (2) give 2.  After the first
  fulfilment the invariant holds, and it holds in every run that fulfils no request a
  second time (lemma \<open>ledger_invariant_permitted\<close> below).
\<close>

theorem ledger_invariant_double_fulfill:
  "stock (serve ''2026-01-05'' empty_database
       [PostDonors ''Ann'' ''O+'' ''555'' ''Pune'', PostRecipients ''Bob'' ''O+'' ''556'' ''City'',
        PostDonations 1 4 ''2026-03-01'', PostRequests 1 2, PostFulfill 1, PostFulfill 1]) 1 = 0
   \<and> donated_units (serve ''2026-01-05'' empty_database
       [PostDonors ''Ann'' ''O+'' ''555'' ''Pune'', PostRecipients ''Bob'' ''O+'' ''556'' ''City'',
        PostDonations 1 4 ''2026-03-01'', PostRequests 1 2, PostFulfill 1, PostFulfill 1]) 1 = 4
   \<and> fulfilled_units (serve ''2026-01-05'' empty_database
       [PostDonors ''Ann'' ''O+'' ''555'' ''Pune'', PostRecipients ''Bob'' ''O+'' ''556'' ''City'',
        PostDonations 1 4 ''2026-03-01'', PostRequests 1 2, PostFulfill 1, PostFulfill 1]) 1 = 2
   \<and> \<not> ledger_invariant (serve ''2026-01-05'' empty_database
       [PostDonors ''Ann'' ''O+'' ''555'' ''Pune'', PostRecipients ''Bob'' ''O+'' ''556'' ''City'',
        PostDonations 1 4 ''2026-03-01'', PostRequests 1 2, PostFulfill 1, PostFulfill 1]) 1
   \<and> ledger_invariant (serve ''2026-01-05'' empty_database
       [PostDonors ''Ann'' ''O+'' ''555'' ''Pune'', PostRecipients ''Bob'' ''O+'' ''556'' ''City'',
        PostDonations 1 4 ''2026-03-01'', PostRequests 1 2, PostFulfill 1]) 1"
  by code_simp


section \<open>The invariant without the double fulfilment\<close>

lemma fold_max_ge: "(a::int) \<le> fold max xs a \<and> (\<forall>x \<in> set xs. x \<le> fold max xs a)"
proof (induction xs arbitrary: a)
  case Nil
  then show ?case by simp
next
  case (Cons y ys)
  from Cons [of "max y a"] show ?case by auto
qed

lemma next_rowid_fresh: "next_rowid ids \<notin> set ids"
  using fold_max_ge [of 0 ids] by (auto simp: next_rowid_def)

lemma unique_key:
  assumes "distinct (map key xs)" and "x \<in> set xs"
  shows "filter (\<lambda>y. key y = key x) xs = [x]"
  using assms
proof (induction xs)
  case Nil
  then show ?case by simp
next
  case (Cons y ys)
  show ?case
  proof (cases "y = x")
    case True
    from Cons.prems True have "key x \<notin> key ` set ys" by simp
    then have "filter (\<lambda>z. key z = key x) ys = []"
      by (induction ys) auto
    with True show ?thesis by simp
  next
    case False
    with Cons.prems have "x \<in> set ys" "key y \<noteq> key x" by auto
    with Cons show ?thesis by simp
  qed
qed

text \<open>Changing one row of a table with a unique key changes a sum over a selection of the
  rows by that row's share.\<close>

lemma sum_update_row:
  fixes g :: "'a \<Rightarrow> int"
  assumes "distinct (map key xs)" and "x0 \<in> set xs" and "key x0 = i"
    and "\<And>x. key (f x) = key x"
  shows "sum_list (map g (filter P (map (\<lambda>x. if key x = i then f x else x) xs))) =
         sum_list (map g (filter P xs)) - (if P x0 then g x0 else 0)
           + (if P (f x0) then g (f x0) else 0)"
  using assms(1,2)
proof (induction xs)
  case Nil
  then show ?case by simp
next
  case (Cons x xs)
  show ?case
  proof (cases "x = x0")
    case True
    with Cons.prems assms(3) have "\<forall>y \<in> set xs. key y \<noteq> i" by (auto simp: image_iff)
    then have "map (\<lambda>x. if key x = i then f x else x) xs = xs"
      by (intro map_idI) auto
    with True assms(3) show ?thesis by simp
  next
    case False
    with Cons.prems assms(3) have "x0 \<in> set xs" "key x \<noteq> i" by auto
    with Cons show ?thesis by simp
  qed
qed

lemma filter_kept:
  assumes "\<And>x. x \<in> set xs \<Longrightarrow> (P (g x) \<longleftrightarrow> P x) \<and> (P x \<longrightarrow> g x = x)"
  shows "filter P (map g xs) = filter P xs"
  using assms by (induction xs) auto

lemma sum_list_join:
  fixes f :: "'a \<Rightarrow> int list"
  shows "sum_list (concat (map f xs)) = sum_list (map (\<lambda>x. sum_list (f x)) xs)"
  by (induction xs) simp_all

lemma donated_units_eq:
  "donated_units db ref =
     sum_list (map (donation_share (donors db) ref)
       (filter (\<lambda>d. donation_deleted_at d = None) (donations db)))"
  by (simp add: donated_units_def sum_list_join donation_share_def [abs_def])

lemma fulfilled_units_eq:
  "fulfilled_units db ref =
     sum_list (map (request_share (recipients db) ref)
       (filter (\<lambda>r. request_status r = ''Fulfilled'') (requests db)))"
  by (simp add: fulfilled_units_def sum_list_join request_share_def [abs_def])

lemma donation_share_unique:
  assumes "distinct (map donor_id ps)" and "p \<in> set ps" and "donor_id p = donation_donor_id d"
  shows "donation_share ps ref d = (if donor_blood_type_id p = ref then donation_units d else 0)"
proof -
  have "filter (\<lambda>q. donor_id q = donation_donor_id d \<and> donor_blood_type_id q = ref) ps =
        filter (\<lambda>q. donor_blood_type_id q = ref) (filter (\<lambda>q. donor_id q = donor_id p) ps)"
    using assms(3) by simp
  with unique_key [of donor_id, OF assms(1,2)] show ?thesis
    by (simp add: donation_share_def)
qed

lemma request_share_unique:
  assumes "distinct (map recipient_id ps)" and "p \<in> set ps"
    and "recipient_id p = request_recipient_id r"
  shows "request_share ps ref r = (if recipient_blood_type_id p = ref then request_units r else 0)"
proof -
  have "filter (\<lambda>q. recipient_id q = request_recipient_id r \<and> recipient_blood_type_id q = ref) ps =
        filter (\<lambda>q. recipient_blood_type_id q = ref) (filter (\<lambda>q. recipient_id q = recipient_id p) ps)"
    using assms(3) by simp
  with unique_key [of recipient_id, OF assms(1,2)] show ?thesis
    by (simp add: request_share_def)
qed

lemma donation_share_append:
  "donation_donor_id d \<noteq> donor_id new \<Longrightarrow>
   donation_share (ps @ [new]) ref d = donation_share ps ref d"
  by (auto simp: donation_share_def)

lemma request_share_append:
  "request_recipient_id r \<noteq> recipient_id new \<Longrightarrow>
   request_share (ps @ [new]) ref r = request_share ps ref r"
  by (auto simp: request_share_def)

lemma donation_share_soft_delete:
  "donation_share (map (\<lambda>p. if donor_id p = i then p\<lparr>donor_deleted_at := t\<rparr> else p) ps) ref d =
   donation_share ps ref d"
  unfolding donation_share_def by (induction ps) auto

lemma request_share_soft_delete:
  "request_share (map (\<lambda>p. if recipient_id p = i then p\<lparr>recipient_deleted_at := t\<rparr> else p) ps)
     ref r = request_share ps ref r"
  unfolding request_share_def by (induction ps) auto


subsection \<open>Ledger operations on the stock\<close>

lemma stock_inventory: "inventory db' = inventory db \<Longrightarrow> stock db' ref = stock db ref"
  by (simp add: stock_def balance_def select_inventory_units_def)

lemma debit_effect:
  assumes "consumeInventoryByTypeID db b u = ((ok, e), db')"
  shows "e = None \<and> stock db' ref = stock db ref - (if ok \<and> ref = b then u else 0)
       \<and> blood_types db' = blood_types db \<and> donors db' = donors db
       \<and> recipients db' = recipients db \<and> donations db' = donations db
       \<and> requests db' = requests db
       \<and> (list_all (\<lambda>r. inventory_deleted_at r = None) (inventory db) \<longrightarrow>
            list_all (\<lambda>r. inventory_deleted_at r = None) (inventory db'))"
proof (cases "balance db b")
  case None
  with assms show ?thesis by (simp add: consume_without_balance)
next
  case (Some bal)
  show ?thesis
  proof (cases "bal < u")
    case True
    with Some assms show ?thesis by (simp add: consume_with_balance)
  next
    case False
    with Some assms have ok: "ok" "e = None"
      and db': "db' = db\<lparr>inventory := map (\<lambda>r. if inventory_blood_type_id r = b
                                      then r\<lparr>inventory_units := inventory_units r - u\<rparr>
                                      else r) (inventory db)\<rparr>"
      by (simp_all add: consume_with_balance)
    have "stock db' ref = stock db ref - (if ref = b then u else 0)"
      using Some by (simp add: db' stock_def balance_debited split: option.splits)
    moreover have "list_all (\<lambda>r. inventory_deleted_at r = None) (inventory db')"
      if "list_all (\<lambda>r. inventory_deleted_at r = None) (inventory db)"
      using that unfolding db' by (auto simp: list_all_iff)
    ultimately show ?thesis using ok by (simp add: db')
  qed
qed

lemma credit_effect:
  assumes d: "distinct (map inventory_blood_type_id (inventory db))"
    and a: "list_all (\<lambda>r. inventory_deleted_at r = None) (inventory db)"
    and b: "b \<in> bt_id ` set (blood_types db)"
    and u: "upsertInventoryByTypeID db b u = (e, db')"
  shows "e = None \<and> stock db' ref = stock db ref + (if ref = b then u else 0)
       \<and> blood_types db' = blood_types db \<and> donors db' = donors db
       \<and> recipients db' = recipients db \<and> donations db' = donations db
       \<and> requests db' = requests db
       \<and> list_all (\<lambda>r. inventory_deleted_at r = None) (inventory db')"
proof (cases "filter (\<lambda>x. inventory_blood_type_id x = b) (inventory db) = []")
  case True
  from b have ex: "list_ex (\<lambda>t. bt_id t = b) (blood_types db)"
    by (auto simp: list_ex_iff)
  from u True ex have e: "e = None"
    and db': "db' = db\<lparr>inventory := inventory db @
           [\<lparr>inventory_id = next_rowid (map inventory_id (inventory db)),
             inventory_blood_type_id = b, inventory_units = u,
             inventory_deleted_at = None\<rparr>]\<rparr>"
    by (simp_all add: upsert_missing)
  from True have none: "filter (\<lambda>x. inventory_blood_type_id x = b \<and> inventory_deleted_at x = None)
                    (inventory db) = []"
    by (auto simp: filter_empty_conv)
  have "stock db' ref = stock db ref + (if ref = b then u else 0)"
    using none by (simp add: db' stock_def balance_eq)
  with e a show ?thesis by (simp add: db')
next
  case False
  let ?f = "\<lambda>r. if inventory_blood_type_id r = b
                 then r\<lparr>inventory_units := inventory_units r + u, inventory_deleted_at := None\<rparr>
                 else r"
  from u False have e: "e = None" and db': "db' = db\<lparr>inventory := map ?f (inventory db)\<rparr>"
    by (simp_all add: upsert_existing)
  from False obtain r0 where r0: "r0 \<in> set (inventory db)" "inventory_blood_type_id r0 = b"
    by (auto simp: filter_empty_conv)
  from unique_row [OF d r0(1)] r0(2)
  have one: "filter (\<lambda>x. inventory_blood_type_id x = b) (inventory db) = [r0]" by simp
  from a r0(1) have act: "inventory_deleted_at r0 = None" by (simp add: list_all_iff)
  have "filter (\<lambda>x. inventory_blood_type_id x = b \<and> inventory_deleted_at x = None) (inventory db) =
        filter (\<lambda>x. inventory_deleted_at x = None)
          (filter (\<lambda>x. inventory_blood_type_id x = b) (inventory db))"
    by simp
  with one act
  have old: "filter (\<lambda>x. inventory_blood_type_id x = b \<and> inventory_deleted_at x = None)
               (inventory db) = [r0]" by simp
  have "stock db' ref = stock db ref + (if ref = b then u else 0)"
  proof (cases "ref = b")
    case True
    then show ?thesis
      using old one by (simp add: db' stock_def balance_eq filter_credited)
  next
    case False
    then show ?thesis
      by (simp add: db' stock_def balance_eq filter_active_credited)
  qed
  moreover have "list_all (\<lambda>r. inventory_deleted_at r = None) (map ?f (inventory db))"
    using a by (auto simp: list_all_iff)
  ultimately show ?thesis using e by (simp add: db')
qed

lemma query_row_mem: "query_row xs = Inr y \<Longrightarrow> y \<in> set xs"
  by (auto simp: query_row_def split: list.splits)

lemma select_donation_row:
  assumes "select_donation db i = Inr (b, u)"
  shows "\<exists>d p. d \<in> set (donations db) \<and> donation_id d = i \<and> donation_deleted_at d = None
           \<and> donation_units d = u \<and> p \<in> set (donors db)
           \<and> donor_id p = donation_donor_id d \<and> donor_blood_type_id p = b"
  using query_row_mem [OF assms [unfolded select_donation_def]] by auto

lemma select_request_row:
  assumes "select_request db i = Inr (b, u)"
  shows "\<exists>r p. r \<in> set (requests db) \<and> request_id r = i \<and> request_units r = u
           \<and> p \<in> set (recipients db)
           \<and> recipient_id p = request_recipient_id r \<and> recipient_blood_type_id p = b"
  using query_row_mem [OF assms [unfolded select_request_def]] by auto

lemma getRequestBloodTypeID_row:
  assumes "getRequestBloodTypeID db i = Inr b"
  shows "\<exists>r p. r \<in> set (requests db) \<and> request_id r = i
           \<and> p \<in> set (recipients db)
           \<and> recipient_id p = request_recipient_id r \<and> recipient_blood_type_id p = b"
proof -
  from assms have "query_row
             (concat (map (\<lambda>r. map recipient_blood_type_id
                                  (filter (\<lambda>p. recipient_id p = request_recipient_id r)
                                     (recipients db)))
                (filter (\<lambda>r. request_id r = i \<and> request_deleted_at r = None)
                   (requests db)))) = Inr b"
    by (auto simp: getRequestBloodTypeID_def split: sum.splits if_splits)
  from query_row_mem [OF this] show ?thesis by auto
qed

lemma getDonorBloodTypeID_row:
  assumes "getDonorBloodTypeID db x = Inr b"
  shows "\<exists>p. p \<in> set (donors db) \<and> donor_id p = x \<and> donor_blood_type_id p = b"
proof -
  from assms have "query_row (map donor_blood_type_id
             (filter (\<lambda>d. donor_id d = x \<and> donor_deleted_at d = None) (donors db))) = Inr b"
    by (auto simp: getDonorBloodTypeID_def split: sum.splits if_splits)
  from query_row_mem [OF this] show ?thesis by auto
qed

lemma getRecipientBloodTypeID_row:
  assumes "getRecipientBloodTypeID db x = Inr b"
  shows "\<exists>p. p \<in> set (recipients db) \<and> recipient_id p = x"
proof -
  from assms have "query_row (map recipient_blood_type_id
             (filter (\<lambda>r. recipient_id r = x \<and> recipient_deleted_at r = None)
                (recipients db))) = Inr b"
    by (auto simp: getRecipientBloodTypeID_def split: sum.splits if_splits)
  from query_row_mem [OF this] show ?thesis by auto
qed

lemma getOrCreate_effect:
  assumes "getOrCreateBloodTypeID db l = (x, db')"
  shows "donors db' = donors db \<and> recipients db' = recipients db
       \<and> donations db' = donations db \<and> inventory db' = inventory db
       \<and> requests db' = requests db \<and> set (blood_types db) \<subseteq> set (blood_types db')
       \<and> (\<forall>i. x = Inr i \<longrightarrow> i \<in> bt_id ` set (blood_types db'))"
proof (cases "normalizeBloodType l = []")
  case True
  with assms show ?thesis by (auto simp: getOrCreateBloodTypeID_def)
next
  case False
  show ?thesis
  proof (cases "select_blood_type db (normalizeBloodType l)")
    case (Inl e)
    from assms show ?thesis
      unfolding getOrCreate_created [OF False Inl] by auto
  next
    case (Inr i)
    from query_row_mem [OF Inr [unfolded select_blood_type_def]]
    have "i \<in> bt_id ` set (blood_types db)" by auto
    with assms show ?thesis
      unfolding getOrCreate_found [OF False Inr] by auto
  qed
qed


subsection \<open>Steps that keep the stores consistent\<close>

lemma map_keeps:
  assumes "\<And>x. h (g x) = h x"
  shows "map h (map g xs) = map h xs"
  by (induction xs) (simp_all add: assms)

lemma fk_mapped:
  assumes "\<And>x. h (g x) = h x" and "\<forall>x \<in> set xs. h x \<in> S"
  shows "\<forall>x \<in> set (map g xs). h x \<in> S"
  using assms by simp

lemma well_formed_iff:
  "well_formed db \<longleftrightarrow>
     distinct (map donor_id (donors db)) \<and> distinct (map recipient_id (recipients db))
     \<and> distinct (map donation_id (donations db)) \<and> distinct (map request_id (requests db))
     \<and> (\<forall>d \<in> set (donations db). donation_donor_id d \<in> donor_id ` set (donors db))
     \<and> (\<forall>r \<in> set (requests db). request_recipient_id r \<in> recipient_id ` set (recipients db))
     \<and> (\<forall>p \<in> set (donors db). donor_blood_type_id p \<in> bt_id ` set (blood_types db))"
  by (simp add: well_formed_def list_all_iff)

lemma donors_step:
  assumes d: "distinct (map donor_id ps)"
    and fk: "\<forall>d \<in> set ds. donation_donor_id d \<in> donor_id ` set ps"
    and bt: "\<forall>p \<in> set ps. donor_blood_type_id p \<in> B" and B: "B \<subseteq> B'"
    and step: "ps' = ps
      \<or> (\<exists>new. ps' = ps @ [new] \<and> donor_id new = next_rowid (map donor_id ps)
                \<and> donor_blood_type_id new \<in> B')
      \<or> (\<exists>i t. ps' = map (\<lambda>p. if donor_id p = i then p\<lparr>donor_deleted_at := t\<rparr> else p) ps)"
  shows "distinct (map donor_id ps')
       \<and> (\<forall>d \<in> set ds. donation_donor_id d \<in> donor_id ` set ps')
       \<and> (\<forall>p \<in> set ps'. donor_blood_type_id p \<in> B')
       \<and> (\<forall>d \<in> set ds. donation_share ps' ref d = donation_share ps ref d)"
  using step
proof (elim disjE exE conjE)
  assume "ps' = ps"
  with d fk bt B show ?thesis by auto
next
  fix new
  assume ps': "ps' = ps @ [new]" and i: "donor_id new = next_rowid (map donor_id ps)"
    and b: "donor_blood_type_id new \<in> B'"
  from i next_rowid_fresh [of "map donor_id ps"] have fresh: "donor_id new \<notin> donor_id ` set ps"
    by simp
  have "donation_share ps' ref x = donation_share ps ref x" if "x \<in> set ds" for x
  proof -
    from that fk have "donation_donor_id x \<in> donor_id ` set ps" by simp
    with fresh have "donation_donor_id x \<noteq> donor_id new" by metis
    then show ?thesis unfolding ps' by (rule donation_share_append)
  qed
  with d fk bt B b fresh show ?thesis by (auto simp: ps')
next
  fix i t
  assume ps': "ps' = map (\<lambda>p. if donor_id p = i then p\<lparr>donor_deleted_at := t\<rparr> else p) ps"
  have ids: "map donor_id ps' = map donor_id ps"
    unfolding ps' by (induction ps) simp_all
  have "donor_id ` set ps' = donor_id ` set ps"
    using arg_cong [OF ids, of set] by simp
  moreover have "\<forall>p \<in> set ps'. donor_blood_type_id p \<in> B'"
    using bt B unfolding ps' by auto
  moreover have "\<forall>d \<in> set ds. donation_share ps' ref d = donation_share ps ref d"
    unfolding ps' by (simp add: donation_share_soft_delete)
  ultimately show ?thesis using d fk ids by simp
qed

lemma recipients_step:
  assumes d: "distinct (map recipient_id ps)"
    and fk: "\<forall>r \<in> set rs. request_recipient_id r \<in> recipient_id ` set ps"
    and step: "ps' = ps
      \<or> (\<exists>new. ps' = ps @ [new] \<and> recipient_id new = next_rowid (map recipient_id ps))
      \<or> (\<exists>i t. ps' = map (\<lambda>p. if recipient_id p = i then p\<lparr>recipient_deleted_at := t\<rparr> else p) ps)"
  shows "distinct (map recipient_id ps')
       \<and> (\<forall>r \<in> set rs. request_recipient_id r \<in> recipient_id ` set ps')
       \<and> (\<forall>r \<in> set rs. request_share ps' ref r = request_share ps ref r)"
  using step
proof (elim disjE exE conjE)
  assume "ps' = ps"
  with d fk show ?thesis by auto
next
  fix new
  assume ps': "ps' = ps @ [new]" and i: "recipient_id new = next_rowid (map recipient_id ps)"
  from i next_rowid_fresh [of "map recipient_id ps"]
  have fresh: "recipient_id new \<notin> recipient_id ` set ps" by simp
  have "request_share ps' ref x = request_share ps ref x" if "x \<in> set rs" for x
  proof -
    from that fk have "request_recipient_id x \<in> recipient_id ` set ps" by simp
    with fresh have "request_recipient_id x \<noteq> recipient_id new" by metis
    then show ?thesis unfolding ps' by (rule request_share_append)
  qed
  with d fk fresh show ?thesis by (auto simp: ps')
next
  fix i t
  assume ps': "ps' = map (\<lambda>p. if recipient_id p = i then p\<lparr>recipient_deleted_at := t\<rparr> else p) ps"
  have ids: "map recipient_id ps' = map recipient_id ps"
    unfolding ps' by (induction ps) simp_all
  have "recipient_id ` set ps' = recipient_id ` set ps"
    using arg_cong [OF ids, of set] by simp
  moreover have "\<forall>r \<in> set rs. request_share ps' ref r = request_share ps ref r"
    unfolding ps' by (simp add: request_share_soft_delete)
  ultimately show ?thesis using d fk ids by simp
qed

lemma sum_shares_cong:
  fixes f g :: "'a \<Rightarrow> int"
  assumes "\<forall>x \<in> set xs. f x = g x"
  shows "sum_list (map f (filter P xs)) = sum_list (map g (filter P xs))"
  using assms by (intro arg_cong [where f = sum_list] map_cong) auto

text \<open>Registering or soft-deleting donors and recipients.\<close>

lemma consistent_entities:
  assumes c: "consistent db"
    and same: "inventory db' = inventory db" "donations db' = donations db"
      "requests db' = requests db"
    and bts: "set (blood_types db) \<subseteq> set (blood_types db')"
    and ds: "donors db' = donors db
      \<or> (\<exists>new. donors db' = donors db @ [new]
                \<and> donor_id new = next_rowid (map donor_id (donors db))
                \<and> donor_blood_type_id new \<in> bt_id ` set (blood_types db'))
      \<or> (\<exists>i t. donors db' =
             map (\<lambda>p. if donor_id p = i then p\<lparr>donor_deleted_at := t\<rparr> else p) (donors db))"
    and rs: "recipients db' = recipients db
      \<or> (\<exists>new. recipients db' = recipients db @ [new]
                \<and> recipient_id new = next_rowid (map recipient_id (recipients db)))
      \<or> (\<exists>i t. recipients db' =
             map (\<lambda>p. if recipient_id p = i then p\<lparr>recipient_deleted_at := t\<rparr> else p)
               (recipients db))"
  shows "consistent db'"
proof -
  from c have wf: "well_formed db" and inv: "sound_inventory (inventory db)"
    "list_all (\<lambda>r. inventory_deleted_at r = None) (inventory db)"
    and eq: "\<And>ref. stock db ref = donated_units db ref - fulfilled_units db ref"
    by (simp_all add: consistent_def)
  from bts have B: "bt_id ` set (blood_types db) \<subseteq> bt_id ` set (blood_types db')" by auto
  note D = donors_step [of "donors db" "donations db" "bt_id ` set (blood_types db)"
      "bt_id ` set (blood_types db')" "donors db'", OF _ _ _ B ds]
  note R = recipients_step [of "recipients db" "requests db" "recipients db'", OF _ _ rs]
  from wf have k: "distinct (map donor_id (donors db))"
    "\<forall>d \<in> set (donations db). donation_donor_id d \<in> donor_id ` set (donors db)"
    "\<forall>p \<in> set (donors db). donor_blood_type_id p \<in> bt_id ` set (blood_types db)"
    "distinct (map recipient_id (recipients db))"
    "\<forall>r \<in> set (requests db). request_recipient_id r \<in> recipient_id ` set (recipients db)"
    "distinct (map donation_id (donations db))" "distinct (map request_id (requests db))"
    by (simp_all add: well_formed_iff)
  have "well_formed db'"
    using D [OF k(1-3), of 0] R [OF k(4,5), of 0] k(6,7)
    by (simp add: well_formed_iff same)
  moreover have "donated_units db' ref = donated_units db ref" for ref
    using D [OF k(1-3), of ref]
    by (simp add: donated_units_eq same sum_shares_cong)
  moreover have "fulfilled_units db' ref = fulfilled_units db ref" for ref
    using R [OF k(4,5), of ref]
    by (simp add: fulfilled_units_eq same sum_shares_cong)
  moreover have "stock db' ref = stock db ref" for ref
    using same(1) by (rule stock_inventory)
  ultimately show ?thesis
    using inv eq by (simp add: consistent_def same)
qed


text \<open>Creating a request, and changing a request that is not Fulfilled into one that is
  not Fulfilled.\<close>

lemma consistent_requests:
  assumes c: "consistent db"
    and same: "inventory db' = inventory db" "donations db' = donations db"
      "donors db' = donors db" "recipients db' = recipients db"
      "blood_types db' = blood_types db"
    and rq: "requests db' = requests db
      \<or> (\<exists>new. requests db' = requests db @ [new]
                \<and> request_id new = next_rowid (map request_id (requests db))
                \<and> request_recipient_id new \<in> recipient_id ` set (recipients db)
                \<and> request_status new \<noteq> ''Fulfilled'')
      \<or> (\<exists>j f. requests db' = map (\<lambda>r. if request_id r = j then f r else r) (requests db)
                \<and> (\<forall>r. request_id (f r) = request_id r
                        \<and> request_recipient_id (f r) = request_recipient_id r)
                \<and> (\<forall>r \<in> set (requests db). request_id r = j \<longrightarrow>
                      request_status r \<noteq> ''Fulfilled'' \<and> request_status (f r) \<noteq> ''Fulfilled''))"
  shows "consistent db'"
proof -
  from c have wf: "well_formed db" and inv: "sound_inventory (inventory db)"
    "list_all (\<lambda>r. inventory_deleted_at r = None) (inventory db)"
    and eq: "\<And>ref. stock db ref = donated_units db ref - fulfilled_units db ref"
    by (simp_all add: consistent_def)
  have "distinct (map request_id (requests db'))
      \<and> (\<forall>r \<in> set (requests db'). request_recipient_id r \<in> recipient_id ` set (recipients db))
      \<and> filter (\<lambda>r. request_status r = ''Fulfilled'') (requests db') =
          filter (\<lambda>r. request_status r = ''Fulfilled'') (requests db)"
    using rq
  proof (elim disjE exE conjE)
    assume "requests db' = requests db"
    with wf show ?thesis by (simp add: well_formed_iff)
  next
    fix new
    assume "requests db' = requests db @ [new]"
      "request_id new = next_rowid (map request_id (requests db))"
      "request_recipient_id new \<in> recipient_id ` set (recipients db)"
      "request_status new \<noteq> ''Fulfilled''"
    with wf next_rowid_fresh [of "map request_id (requests db)"] show ?thesis
      by (simp add: well_formed_iff)
  next
    fix j and f :: "request_row \<Rightarrow> request_row"
    let ?g = "\<lambda>r. if request_id r = j then f r else r"
    assume rs': "requests db' = map ?g (requests db)"
      and f: "\<forall>r. request_id (f r) = request_id r
                        \<and> request_recipient_id (f r) = request_recipient_id r"
      and st: "\<forall>r \<in> set (requests db). request_id r = j \<longrightarrow>
                      request_status r \<noteq> ''Fulfilled'' \<and> request_status (f r) \<noteq> ''Fulfilled''"
    have g: "\<And>r. request_id (?g r) = request_id r"
      "\<And>r. request_recipient_id (?g r) = request_recipient_id r"
      using f by simp_all
    from wf have dr: "distinct (map request_id (requests db))"
      and fr: "\<forall>r \<in> set (requests db). request_recipient_id r \<in> recipient_id ` set (recipients db)"
      by (simp_all add: well_formed_iff)
    have k1: "distinct (map request_id (requests db'))"
      unfolding rs' map_keeps [of request_id ?g, OF g(1)] by (rule dr)
    have k2: "\<forall>r \<in> set (requests db').
        request_recipient_id r \<in> recipient_id ` set (recipients db)"
      unfolding rs' by (rule fk_mapped [of request_recipient_id ?g, OF g(2) fr])
    have k3: "filter (\<lambda>r. request_status r = ''Fulfilled'') (requests db') =
          filter (\<lambda>r. request_status r = ''Fulfilled'') (requests db)"
      unfolding rs' by (rule filter_kept) (use st in auto)
    from k1 k2 k3 show ?thesis by (intro conjI)
  qed
  then have k: "distinct (map request_id (requests db'))"
    "\<forall>r \<in> set (requests db'). request_recipient_id r \<in> recipient_id ` set (recipients db)"
    and fl: "filter (\<lambda>r. request_status r = ''Fulfilled'') (requests db') =
          filter (\<lambda>r. request_status r = ''Fulfilled'') (requests db)"
    by simp_all
  have "well_formed db'"
    using wf k by (simp add: well_formed_iff same)
  moreover have "donated_units db' ref = donated_units db ref" for ref
    by (simp add: donated_units_def same)
  moreover have "fulfilled_units db' ref = fulfilled_units db ref" for ref
    by (simp add: fulfilled_units_eq same fl)
  moreover have "stock db' ref = stock db ref" for ref
    using same(1) by (rule stock_inventory)
  ultimately show ?thesis
    using inv eq by (simp add: consistent_def same)
qed

text \<open>A debit that succeeds, followed by the status Fulfilled written to a request that was
  not Fulfilled.\<close>

lemma consistent_fulfilment:
  assumes c: "consistent db"
    and deb: "consumeInventoryByTypeID db b u = ((True, e), db1)"
    and r0: "r0 \<in> set (requests db)" "request_id r0 = j" "request_status r0 \<noteq> ''Fulfilled''"
    and p: "p \<in> set (recipients db)" "recipient_id p = request_recipient_id r0"
      "recipient_blood_type_id p = b"
    and f: "\<And>r. request_id (f r) = request_id r"
      "\<And>r. request_recipient_id (f r) = request_recipient_id r"
      "request_status (f r0) = ''Fulfilled''" "request_units (f r0) = u"
    and db': "requests db' = map (\<lambda>r. if request_id r = j then f r else r) (requests db1)"
      "inventory db' = inventory db1" "donations db' = donations db1"
      "donors db' = donors db1" "recipients db' = recipients db1"
      "blood_types db' = blood_types db1"
  shows "consistent db'"
proof -
  let ?g = "\<lambda>r. if request_id r = j then f r else r"
  from c have wf: "well_formed db" and inv: "sound_inventory (inventory db)"
    "list_all (\<lambda>r. inventory_deleted_at r = None) (inventory db)"
    and eq: "\<And>ref. stock db ref = donated_units db ref - fulfilled_units db ref"
    by (simp_all add: consistent_def)
  from debit_effect [OF deb] have db1: "blood_types db1 = blood_types db"
    "donors db1 = donors db" "recipients db1 = recipients db" "donations db1 = donations db"
    "requests db1 = requests db"
    and act: "list_all (\<lambda>r. inventory_deleted_at r = None) (inventory db1)"
    using inv(2) by simp_all
  have st: "stock db' ref = stock db ref - (if ref = b then u else 0)" for ref
    using debit_effect [OF deb, of ref] stock_inventory [OF db'(2), of ref] by simp
  from consume_sound [OF deb inv(1)] have snd: "sound_inventory (inventory db1)" .
  have g: "\<And>r. request_id (?g r) = request_id r"
    "\<And>r. request_recipient_id (?g r) = request_recipient_id r"
    using f(1,2) by simp_all
  from wf have dr0: "distinct (map request_id (requests db))"
    and fr: "\<forall>r \<in> set (requests db). request_recipient_id r \<in> recipient_id ` set (recipients db)"
    by (simp_all add: well_formed_iff)
  have k1: "distinct (map request_id (requests db'))"
    unfolding db'(1) db1(5) map_keeps [of request_id ?g, OF g(1)] by (rule dr0)
  have k2: "\<forall>r \<in> set (requests db').
      request_recipient_id r \<in> recipient_id ` set (recipients db)"
    unfolding db'(1) db1(5) by (rule fk_mapped [of request_recipient_id ?g, OF g(2) fr])
  have wf': "well_formed db'"
    using wf k1 k2 by (simp add: well_formed_iff db'(2-6) db1)
  from wf have dr: "distinct (map request_id (requests db))"
    and dp: "distinct (map recipient_id (recipients db))"
    by (simp_all add: well_formed_iff)
  have share: "request_share (recipients db) ref (f r0) = (if ref = b then u else 0)" for ref
    using request_share_unique [OF dp p(1), of "f r0" ref] p(2,3) f(2,4) by auto
  have "fulfilled_units db' ref = fulfilled_units db ref + (if ref = b then u else 0)" for ref
    using sum_update_row [where key = request_id and xs = "requests db" and ?x0.0 = r0
        and i = j and f = f and g = "request_share (recipients db) ref"
        and P = "\<lambda>r. request_status r = ''Fulfilled''", OF dr r0(1,2) f(1)]
      r0(3) f(3) share [of ref]
    by (simp add: fulfilled_units_eq db' db1)
  moreover have "donated_units db' ref = donated_units db ref" for ref
    by (simp add: donated_units_def db' db1)
  ultimately show ?thesis
    using wf' snd act eq st by (simp add: consistent_def db')
qed

text \<open>A debit that succeeds, followed by the soft deletion of an active donation.\<close>

lemma consistent_retire:
  assumes c: "consistent db"
    and deb: "consumeInventoryByTypeID db b u = ((True, e), db1)"
    and d0: "d0 \<in> set (donations db)" "donation_id d0 = i" "donation_deleted_at d0 = None"
      "donation_units d0 = u"
    and p: "p \<in> set (donors db)" "donor_id p = donation_donor_id d0"
      "donor_blood_type_id p = b"
    and db': "donations db' =
        map (\<lambda>d. if donation_id d = i then d\<lparr>donation_deleted_at := Some t\<rparr> else d)
          (donations db1)"
      "inventory db' = inventory db1" "requests db' = requests db1"
      "donors db' = donors db1" "recipients db' = recipients db1"
      "blood_types db' = blood_types db1"
  shows "consistent db'"
proof -
  let ?f = "\<lambda>d. d\<lparr>donation_deleted_at := Some t\<rparr>"
  let ?g = "\<lambda>d. if donation_id d = i then ?f d else d"
  from c have wf: "well_formed db" and inv: "sound_inventory (inventory db)"
    "list_all (\<lambda>r. inventory_deleted_at r = None) (inventory db)"
    and eq: "\<And>ref. stock db ref = donated_units db ref - fulfilled_units db ref"
    by (simp_all add: consistent_def)
  from debit_effect [OF deb] have db1: "blood_types db1 = blood_types db"
    "donors db1 = donors db" "recipients db1 = recipients db" "donations db1 = donations db"
    "requests db1 = requests db"
    and act: "list_all (\<lambda>r. inventory_deleted_at r = None) (inventory db1)"
    using inv(2) by simp_all
  have st: "stock db' ref = stock db ref - (if ref = b then u else 0)" for ref
    using debit_effect [OF deb, of ref] stock_inventory [OF db'(2), of ref] by simp
  from consume_sound [OF deb inv(1)] have snd: "sound_inventory (inventory db1)" .
  have g: "\<And>d. donation_id (?g d) = donation_id d"
    "\<And>d. donation_donor_id (?g d) = donation_donor_id d"
    by simp_all
  from wf have dd0: "distinct (map donation_id (donations db))"
    and fd: "\<forall>d \<in> set (donations db). donation_donor_id d \<in> donor_id ` set (donors db)"
    by (simp_all add: well_formed_iff)
  have k1: "distinct (map donation_id (donations db'))"
    unfolding db'(1) db1(4) map_keeps [of donation_id ?g, OF g(1)] by (rule dd0)
  have k2: "\<forall>d \<in> set (donations db'). donation_donor_id d \<in> donor_id ` set (donors db)"
    unfolding db'(1) db1(4) by (rule fk_mapped [of donation_donor_id ?g, OF g(2) fd])
  have wf': "well_formed db'"
    using wf k1 k2 by (simp add: well_formed_iff db'(2-6) db1)
  from wf have dd: "distinct (map donation_id (donations db))"
    and dp: "distinct (map donor_id (donors db))"
    by (simp_all add: well_formed_iff)
  have share: "donation_share (donors db) ref d0 = (if ref = b then u else 0)" for ref
    using donation_share_unique [OF dp p(1), of d0 ref] p(2,3) d0(4) by auto
  have "donated_units db' ref = donated_units db ref - (if ref = b then u else 0)" for ref
    using sum_update_row [where key = donation_id and xs = "donations db" and ?x0.0 = d0
        and i = i and f = ?f and g = "donation_share (donors db) ref"
        and P = "\<lambda>d. donation_deleted_at d = None", OF dd d0(1,2)]
      d0(3) share [of ref]
    by (simp add: donated_units_eq db' db1)
  moreover have "fulfilled_units db' ref = fulfilled_units db ref" for ref
    by (simp add: fulfilled_units_def db' db1)
  ultimately show ?thesis
    using wf' snd act eq st by (simp add: consistent_def db')
qed

text \<open>A donation of a registered donor inserted, followed by the credit of its units.\<close>

lemma consistent_credit:
  assumes c: "consistent db" and u: "0 < u"
    and p: "p \<in> set (donors db)" "donor_id p = x" "donor_blood_type_id p = b"
    and db1: "donations db1 = donations db @ [new]"
      "donation_id new = next_rowid (map donation_id (donations db))"
      "donation_donor_id new = x" "donation_units new = u" "donation_deleted_at new = None"
      "inventory db1 = inventory db" "requests db1 = requests db"
      "donors db1 = donors db" "recipients db1 = recipients db"
      "blood_types db1 = blood_types db"
    and up: "upsertInventoryByTypeID db1 b u = (e, db2)"
  shows "e = None \<and> consistent db2"
proof -
  from c have wf: "well_formed db" and inv: "sound_inventory (inventory db)"
    "list_all (\<lambda>r. inventory_deleted_at r = None) (inventory db)"
    and eq: "\<And>ref. stock db ref = donated_units db ref - fulfilled_units db ref"
    by (simp_all add: consistent_def)
  from wf p(1,3) have b: "b \<in> bt_id ` set (blood_types db1)"
    by (auto simp: well_formed_iff db1)
  from inv(1) have di: "distinct (map inventory_blood_type_id (inventory db1))"
    by (simp add: sound_inventory_def db1)
  from inv(2) have a1: "list_all (\<lambda>r. inventory_deleted_at r = None) (inventory db1)"
    by (simp add: db1)
  note ce = credit_effect [OF di a1 b up]
  from ce have e: "e = None" and db2: "blood_types db2 = blood_types db"
    "donors db2 = donors db" "recipients db2 = recipients db"
    "donations db2 = donations db @ [new]" "requests db2 = requests db"
    and act: "list_all (\<lambda>r. inventory_deleted_at r = None) (inventory db2)"
    by (simp_all add: db1)
  have st: "stock db2 ref = stock db ref + (if ref = b then u else 0)" for ref
    using ce [of ref] stock_inventory [OF db1(6), of ref] by simp
  from inv(1) have "sound_inventory (inventory db1)" by (simp add: db1)
  from upsert_sound [OF up u this] have snd: "sound_inventory (inventory db2)" .
  from p(1,2) have xin: "x \<in> donor_id ` set (donors db)" by auto
  have wf': "well_formed db2"
    using wf xin next_rowid_fresh [of "map donation_id (donations db)"]
    by (simp add: well_formed_iff db2 db1)
  from wf have dp: "distinct (map donor_id (donors db))" by (simp add: well_formed_iff)
  have share: "donation_share (donors db) ref new = (if ref = b then u else 0)" for ref
    using donation_share_unique [OF dp p(1), of new ref] p(2,3) db1(3,4) by auto
  have "donated_units db2 ref = donated_units db ref + (if ref = b then u else 0)" for ref
    using share [of ref] by (simp add: donated_units_eq db2 db1)
  moreover have "fulfilled_units db2 ref = fulfilled_units db ref" for ref
    by (simp add: fulfilled_units_def db2)
  ultimately show ?thesis
    using e wf' snd act eq st by (simp add: consistent_def)
qed


lemma consistent_request_changed:
  fixes f :: "request_row \<Rightarrow> request_row"
  assumes c: "consistent db"
    and same: "inventory db' = inventory db" "donations db' = donations db"
      "donors db' = donors db" "recipients db' = recipients db"
      "blood_types db' = blood_types db"
    and rs': "requests db' = map (\<lambda>r. if request_id r = j then f r else r) (requests db)"
    and f: "\<And>r. request_id (f r) = request_id r"
      "\<And>r. request_recipient_id (f r) = request_recipient_id r"
    and st: "\<And>r. r \<in> set (requests db) \<Longrightarrow> request_id r = j \<Longrightarrow>
               request_status r \<noteq> ''Fulfilled'' \<and> request_status (f r) \<noteq> ''Fulfilled''"
  shows "consistent db'"
proof (rule consistent_requests [OF c same])
  have "requests db' = map (\<lambda>r. if request_id r = j then f r else r) (requests db)
      \<and> (\<forall>r. request_id (f r) = request_id r
              \<and> request_recipient_id (f r) = request_recipient_id r)
      \<and> (\<forall>r \<in> set (requests db). request_id r = j \<longrightarrow>
            request_status r \<noteq> ''Fulfilled'' \<and> request_status (f r) \<noteq> ''Fulfilled'')"
    using rs' f st by blast
  then show "requests db' = requests db
      \<or> (\<exists>new. requests db' = requests db @ [new]
                \<and> request_id new = next_rowid (map request_id (requests db))
                \<and> request_recipient_id new \<in> recipient_id ` set (recipients db)
                \<and> request_status new \<noteq> ''Fulfilled'')
      \<or> (\<exists>j f. requests db' = map (\<lambda>r. if request_id r = j then f r else r) (requests db)
                \<and> (\<forall>r. request_id (f r) = request_id r
                        \<and> request_recipient_id (f r) = request_recipient_id r)
                \<and> (\<forall>r \<in> set (requests db). request_id r = j \<longrightarrow>
                      request_status r \<noteq> ''Fulfilled'' \<and> request_status (f r) \<noteq> ''Fulfilled''))"
    by (intro disjI2 exI [of _ j] exI [of _ f])
qed

subsection \<open>The handlers keep the stores consistent\<close>

lemma handle_donors_consistent:
  assumes cs: "consistent db"
  shows "consistent (snd (handle_donors today db n b p c))"
proof (cases "TrimSpace n = [] \<or> normalizeBloodType b = []")
  case True
  with cs show ?thesis by (auto simp: handle_donors_def Let_def)
next
  case False
  obtain x db1 where g: "getOrCreateBloodTypeID db (normalizeBloodType b) = (x, db1)"
    by (metis surj_pair)
  note ge = getOrCreate_effect [OF g]
  have c1: "consistent db1"
    by (rule consistent_entities [OF cs]) (use ge in simp_all)
  show ?thesis
  proof (cases x)
    case (Inl e)
    with False g c1 show ?thesis by (simp add: handle_donors_def Let_def)
  next
    case (Inr i)
    with ge have i: "i \<in> bt_id ` set (blood_types db1)" by simp
    then have ex: "list_ex (\<lambda>t. bt_id t = i) (blood_types db1)" by (auto simp: list_ex_iff)
    let ?new = "\<lparr>donor_id = next_rowid (map donor_id (donors db1)), donor_name = TrimSpace n,
                donor_blood_type_id = i, donor_phone = Some (TrimSpace p),
                donor_city = Some (TrimSpace c), donor_created_at = today,
                donor_deleted_at = None\<rparr>"
    have r: "snd (handle_donors today db n b p c) = db1\<lparr>donors := donors db1 @ [?new]\<rparr>"
      using False g Inr ex by (simp add: handle_donors_def Let_def insert_donor_def)
    have "consistent (db1\<lparr>donors := donors db1 @ [?new]\<rparr>)"
      by (rule consistent_entities [OF c1]) (use i in simp_all)
    with r show ?thesis by simp
  qed
qed

lemma handle_recipients_consistent:
  assumes cs: "consistent db"
  shows "consistent (snd (handle_recipients today db n b p h))"
proof (cases "TrimSpace n = [] \<or> normalizeBloodType b = []")
  case True
  with cs show ?thesis by (auto simp: handle_recipients_def Let_def)
next
  case False
  obtain x db1 where g: "getOrCreateBloodTypeID db (normalizeBloodType b) = (x, db1)"
    by (metis surj_pair)
  note ge = getOrCreate_effect [OF g]
  have c1: "consistent db1"
    by (rule consistent_entities [OF cs]) (use ge in simp_all)
  show ?thesis
  proof (cases x)
    case (Inl e)
    with False g c1 show ?thesis by (simp add: handle_recipients_def Let_def)
  next
    case (Inr i)
    with ge have i: "i \<in> bt_id ` set (blood_types db1)" by simp
    then have ex: "list_ex (\<lambda>t. bt_id t = i) (blood_types db1)" by (auto simp: list_ex_iff)
    let ?new = "\<lparr>recipient_id = next_rowid (map recipient_id (recipients db1)),
                recipient_name = TrimSpace n, recipient_blood_type_id = i,
                recipient_phone = Some (TrimSpace p), recipient_hospital = Some (TrimSpace h),
                recipient_created_at = today, recipient_deleted_at = None\<rparr>"
    have r: "snd (handle_recipients today db n b p h) =
        db1\<lparr>recipients := recipients db1 @ [?new]\<rparr>"
      using False g Inr ex by (simp add: handle_recipients_def Let_def insert_recipient_def)
    have "consistent (db1\<lparr>recipients := recipients db1 @ [?new]\<rparr>)"
      by (rule consistent_entities [OF c1]) simp_all
    with r show ?thesis by simp
  qed
qed

lemma handle_donors_delete_consistent:
  assumes cs: "consistent db"
  shows "consistent (snd (handle_donors_delete today db i))"
proof (cases "i = 0")
  case True
  with cs show ?thesis by (simp add: handle_donors_delete_def)
next
  case False
  let ?db' = "db\<lparr>donors := map (\<lambda>d. if donor_id d = i then d\<lparr>donor_deleted_at := Some today\<rparr>
                                      else d) (donors db)\<rparr>"
  have "\<exists>j t. donors ?db' =
      map (\<lambda>p. if donor_id p = j then p\<lparr>donor_deleted_at := t\<rparr> else p) (donors db)"
    by (intro exI [of _ i] exI [of _ "Some today"]) simp
  then have "consistent ?db'"
    by (intro consistent_entities [OF cs]) simp_all
  with False show ?thesis by (simp add: handle_donors_delete_def)
qed

lemma handle_recipients_delete_consistent:
  assumes cs: "consistent db"
  shows "consistent (snd (handle_recipients_delete today db i))"
proof (cases "i = 0")
  case True
  with cs show ?thesis by (simp add: handle_recipients_delete_def)
next
  case False
  let ?db' = "db\<lparr>recipients :=
      map (\<lambda>r. if recipient_id r = i then r\<lparr>recipient_deleted_at := Some today\<rparr> else r)
        (recipients db)\<rparr>"
  have "\<exists>j t. recipients ?db' =
      map (\<lambda>p. if recipient_id p = j then p\<lparr>recipient_deleted_at := t\<rparr> else p) (recipients db)"
    by (intro exI [of _ i] exI [of _ "Some today"]) simp
  then have "consistent ?db'"
    by (intro consistent_entities [OF cs]) simp_all
  with False show ?thesis by (simp add: handle_recipients_delete_def)
qed

lemma handle_requests_consistent:
  assumes cs: "consistent db"
  shows "consistent (snd (handle_requests today db x u))"
proof (cases "getRecipientBloodTypeID db x")
  case (Inl e)
  with cs show ?thesis by (simp add: handle_requests_def)
next
  case (Inr b)
  from getRecipientBloodTypeID_row [OF Inr] obtain p where
    p: "p \<in> set (recipients db)" "recipient_id p = x" by blast
  then have ex: "list_ex (\<lambda>r. recipient_id r = x) (recipients db)"
    by (auto simp: list_ex_iff)
  let ?new = "\<lparr>request_id = next_rowid (map request_id (requests db)),
                request_recipient_id = x, request_units = u,
                request_status = ''Pending'', request_date = today,
                request_deleted_at = None\<rparr>"
  from p have "x \<in> recipient_id ` set (recipients db)" by auto
  then have "consistent (db\<lparr>requests := requests db @ [?new]\<rparr>)"
    by (intro consistent_requests [OF cs]) simp_all
  with cs Inr ex show ?thesis by (simp add: handle_requests_def insert_request_def)
qed

lemma handle_requests_delete_consistent:
  assumes cs: "consistent db"
  shows "consistent (snd (handle_requests_delete today db i))"
proof (cases "select_request_status db i")
  case (Inl e)
  with cs show ?thesis by (simp add: handle_requests_delete_def)
next
  case (Inr os)
  from cs have dr: "distinct (map request_id (requests db))"
    by (simp add: consistent_def well_formed_iff)
  from Inr obtain r1 rest where
    fl: "filter (\<lambda>r. request_id r = i \<and> request_deleted_at r = None) (requests db) = r1 # rest"
    and r1: "request_status r1 = os"
    by (auto simp: select_request_status_def query_row_def split: list.splits)
  show ?thesis
  proof (cases "i = 0 \<or> os = ''Fulfilled''")
    case True
    with cs Inr show ?thesis by (auto simp: handle_requests_delete_def)
  next
    case False
    let ?f = "\<lambda>r. r\<lparr>request_status := ''Cancelled'', request_deleted_at := Some today\<rparr>"
    let ?db' = "db\<lparr>requests := map (\<lambda>r. if request_id r = i then ?f r else r) (requests db)\<rparr>"
    have "consistent ?db'"
    proof (rule consistent_request_changed [OF cs, where f = ?f and j = i])
      fix r
      assume "r \<in> set (requests db)" "request_id r = i"
      from primary_key_row [OF dr fl this] r1 False
      show "request_status r \<noteq> ''Fulfilled'' \<and> request_status (?f r) \<noteq> ''Fulfilled''"
        by simp
    qed simp_all
    with False Inr show ?thesis by (simp add: handle_requests_delete_def)
  qed
qed


lemma handle_fulfill_consistent:
  assumes cs: "consistent db" and perm: "status_of db i \<noteq> Inr ''Fulfilled''"
  shows "consistent (snd (handle_fulfill db i))"
proof (cases "select_request db i")
  case (Inl e)
  with cs show ?thesis by (simp add: handle_fulfill_def)
next
  case (Inr bu)
  obtain b u where bu: "bu = (b, u)" by (cases bu)
  obtain ok e db1 where deb: "consumeInventoryByTypeID db b u = ((ok, e), db1)"
    by (metis surj_pair)
  from debit_effect [OF deb] have e: "e = None" by simp
  show ?thesis
  proof (cases "i \<noteq> 0 \<and> ok")
    case False
    from consume_refused [of db b u e db1] deb have "\<not> ok \<Longrightarrow> db1 = db" by simp
    with cs Inr bu deb e False show ?thesis by (auto simp: handle_fulfill_def)
  next
    case True
    from select_request_row [OF Inr [unfolded bu]] obtain r0 p where
      r0: "r0 \<in> set (requests db)" "request_id r0 = i" "request_units r0 = u"
      and p: "p \<in> set (recipients db)" "recipient_id p = request_recipient_id r0"
        "recipient_blood_type_id p = b"
      by blast
    from cs have dr: "distinct (map request_id (requests db))"
      by (simp add: consistent_def well_formed_iff)
    from unique_request [OF dr r0(1)] r0(2) perm have ns: "request_status r0 \<noteq> ''Fulfilled''"
      by (simp add: status_of_eq)
    let ?f = "\<lambda>r. r\<lparr>request_status := ''Fulfilled''\<rparr>"
    have r: "snd (handle_fulfill db i) =
        db1\<lparr>requests := map (\<lambda>r. if request_id r = i then ?f r else r) (requests db1)\<rparr>"
      using True Inr bu deb e by (simp add: handle_fulfill_def)
    from True deb have deb': "consumeInventoryByTypeID db b u = ((True, e), db1)" by simp
    show ?thesis
      unfolding r
      by (rule consistent_fulfilment [where f = ?f, OF cs deb' r0(1,2) ns p])
        (simp_all add: r0(3))
  qed
qed

lemma handle_requests_update_consistent:
  assumes cs: "consistent db"
  shows "consistent (snd (handle_requests_update db i u st))"
proof (cases "i = 0 \<or> u \<le> 0 \<or> TrimSpace st = []")
  case True
  with cs show ?thesis by (auto simp: handle_requests_update_def Let_def)
next
  case valid: False
  from cs have dr: "distinct (map request_id (requests db))"
    by (simp add: consistent_def well_formed_iff)
  show ?thesis
  proof (cases "select_request_units_status db i")
    case (Inl e)
    with cs valid show ?thesis by (simp add: handle_requests_update_def Let_def)
  next
    case (Inr old)
    obtain ou os where old: "old = (ou, os)" by (cases old)
    from Inr old obtain r1 rest where
      fl: "filter (\<lambda>r. request_id r = i \<and> request_deleted_at r = None) (requests db) = r1 # rest"
      and r1: "request_units r1 = ou" "request_status r1 = os"
      by (auto simp: select_request_units_status_def query_row_def split: list.splits)
    let ?f = "\<lambda>r. r\<lparr>request_units := u, request_status := TrimSpace st\<rparr>"
    consider (frozen) "os = ''Fulfilled''" "TrimSpace st \<noteq> ''Fulfilled'' \<or> ou \<noteq> u"
      | (same) "os = ''Fulfilled''" "TrimSpace st = ''Fulfilled''" "ou = u"
      | (plain) "os \<noteq> ''Fulfilled''" "TrimSpace st \<noteq> ''Fulfilled''"
      | (fulfil) "os \<noteq> ''Fulfilled''" "TrimSpace st = ''Fulfilled''"
      by blast
    then show ?thesis
    proof cases
      case frozen
      with cs valid Inr old show ?thesis
        by (auto simp: handle_requests_update_def Let_def)
    next
      case same
      with Inr old have "select_request_units_status db i = Inr (u, TrimSpace st)" by simp
      from update_request_same [OF dr this] cs valid Inr old same show ?thesis
        by (simp add: handle_requests_update_def Let_def)
    next
      case plain
      have "consistent (update_request db i u (TrimSpace st))"
        unfolding update_request_def
      proof (rule consistent_request_changed [OF cs, where f = ?f and j = i])
        fix r
        assume "r \<in> set (requests db)" "request_id r = i"
        from primary_key_row [OF dr fl this] r1 plain
        show "request_status r \<noteq> ''Fulfilled'' \<and> request_status (?f r) \<noteq> ''Fulfilled''"
          by simp
      qed simp_all
      with valid Inr old plain show ?thesis
        by (simp add: handle_requests_update_def Let_def)
    next
      case fulfil
      show ?thesis
      proof (cases "getRequestBloodTypeID db i")
        case (Inl e)
        with cs valid Inr old fulfil show ?thesis
          by (simp add: handle_requests_update_def Let_def)
      next
        case b: (Inr b)
        obtain ok e db1 where deb: "consumeInventoryByTypeID db b u = ((ok, e), db1)"
          by (metis surj_pair)
        from debit_effect [OF deb] have e: "e = None" by simp
        show ?thesis
        proof (cases ok)
          case False
          with consume_refused [of db b u e db1] deb have "db1 = db" by simp
          with cs valid Inr old fulfil b deb e False show ?thesis
            by (simp add: handle_requests_update_def Let_def)
        next
          case True
          from getRequestBloodTypeID_row [OF b] obtain r0 p where
            r0: "r0 \<in> set (requests db)" "request_id r0 = i"
            and p: "p \<in> set (recipients db)" "recipient_id p = request_recipient_id r0"
              "recipient_blood_type_id p = b"
            by blast
          from primary_key_row [OF dr fl r0] r1 fulfil
          have ns: "request_status r0 \<noteq> ''Fulfilled''" by simp
          from True deb have deb': "consumeInventoryByTypeID db b u = ((True, e), db1)"
            by simp
          have "consistent (update_request db1 i u (TrimSpace st))"
            unfolding update_request_def
            by (rule consistent_fulfilment [where f = ?f, OF cs deb' r0(1,2) ns p])
              (simp_all add: fulfil)
          with valid Inr old fulfil b deb e True show ?thesis
            by (simp add: handle_requests_update_def Let_def)
        qed
      qed
    qed
  qed
qed

lemma handle_donations_consistent:
  assumes cs: "consistent db"
  shows "consistent (snd (handle_donations today db x u ex))"
proof (cases "x = 0 \<or> u \<le> 0 \<or> TrimSpace ex = []")
  case True
  with cs show ?thesis by (auto simp: handle_donations_def Let_def)
next
  case valid: False
  show ?thesis
  proof (cases "getDonorBloodTypeID db x")
    case (Inl e)
    with cs valid show ?thesis by (simp add: handle_donations_def Let_def)
  next
    case (Inr b)
    from getDonorBloodTypeID_row [OF Inr] obtain p where
      p: "p \<in> set (donors db)" "donor_id p = x" "donor_blood_type_id p = b" by blast
    then have ex: "list_ex (\<lambda>d. donor_id d = x) (donors db)" by (auto simp: list_ex_iff)
    let ?new = "\<lparr>donation_id = next_rowid (map donation_id (donations db)),
                donation_donor_id = x, donation_units = u, donation_date = today,
                donation_expiry_date = TrimSpace ex, donation_deleted_at = None\<rparr>"
    let ?db1 = "db\<lparr>donations := donations db @ [?new]\<rparr>"
    have ins: "insert_donation db x u today (TrimSpace ex) = (None, ?db1)"
      using ex by (simp add: insert_donation_def)
    obtain e db2 where up: "upsertInventoryByTypeID ?db1 b u = (e, db2)"
      by (metis surj_pair)
    from valid have u: "0 < u" by simp
    have "e = None \<and> consistent db2"
      by (rule consistent_credit [where new = ?new, OF cs u p _ _ _ _ _ _ _ _ _ _ up])
        simp_all
    with valid Inr ins up show ?thesis by (simp add: handle_donations_def Let_def)
  qed
qed

lemma handle_donations_delete_consistent:
  assumes cs: "consistent db"
  shows "consistent (snd (handle_donations_delete today db i))"
proof (cases "select_donation db i")
  case (Inl e)
  with cs show ?thesis by (simp add: handle_donations_delete_def)
next
  case (Inr bu)
  obtain b u where bu: "bu = (b, u)" by (cases bu)
  obtain ok e db1 where deb: "consumeInventoryByTypeID db b u = ((ok, e), db1)"
    by (metis surj_pair)
  from debit_effect [OF deb] have e: "e = None" by simp
  show ?thesis
  proof (cases "i \<noteq> 0 \<and> ok")
    case False
    from consume_refused [of db b u e db1] deb have "\<not> ok \<Longrightarrow> db1 = db" by simp
    with cs Inr bu deb e False show ?thesis by (auto simp: handle_donations_delete_def)
  next
    case True
    from select_donation_row [OF Inr [unfolded bu]] obtain d0 p where
      d0: "d0 \<in> set (donations db)" "donation_id d0 = i" "donation_deleted_at d0 = None"
        "donation_units d0 = u"
      and p: "p \<in> set (donors db)" "donor_id p = donation_donor_id d0"
        "donor_blood_type_id p = b"
      by blast
    have r: "snd (handle_donations_delete today db i) =
        db1\<lparr>donations := map (\<lambda>d. if donation_id d = i
                                    then d\<lparr>donation_deleted_at := Some today\<rparr> else d)
                            (donations db1)\<rparr>"
      using True Inr bu deb e by (simp add: handle_donations_delete_def)
    from True deb have deb': "consumeInventoryByTypeID db b u = ((True, e), db1)" by simp
    show ?thesis
      unfolding r
      by (rule consistent_retire [where t = today, OF cs deb' d0 p]) simp_all
  qed
qed

lemma handle_consistent:
  assumes "consistent db" and "permitted db q"
  shows "consistent (snd (handle today db q))"
  using assms
  by (cases q)
    (simp_all add: handle_donors_consistent handle_recipients_consistent
      handle_donations_consistent handle_donations_delete_consistent
      handle_requests_consistent handle_donors_delete_consistent
      handle_recipients_delete_consistent handle_fulfill_consistent
      handle_requests_update_consistent handle_requests_delete_consistent)

lemma serve_consistent:
  "consistent db \<Longrightarrow> permitted_run today db qs \<Longrightarrow> consistent (serve today db qs)"
  by (induction qs arbitrary: db) (simp_all add: handle_consistent)

lemma consistent_empty: "consistent empty_database"
  by (simp add: consistent_def well_formed_def sound_inventory_def empty_database_def
      stock_def balance_eq donated_units_def fulfilled_units_def)

text \<open>The invariant of the ledger holds in every store reached from the empty one by
  requests that fulfil no request a second time and update no donor or recipient.\<close>

lemma ledger_invariant_permitted:
  assumes "permitted_run today empty_database qs"
  shows "ledger_invariant (serve today empty_database qs) ref"
proof -
  from serve_consistent [OF consistent_empty assms]
  have "consistent (serve today empty_database qs)" .
  then have "stock (serve today empty_database qs) ref =
      donated_units (serve today empty_database qs) ref
        - fulfilled_units (serve today empty_database qs) ref"
    and "sound_inventory (inventory (serve today empty_database qs))"
    by (simp_all add: consistent_def)
  with sound_stock [of "serve today empty_database qs" ref] show ?thesis
    by (simp only: ledger_invariant_def)
qed

text \<open>The run with the double fulfilment is permitted up to the first fulfilment, and
  not with the second one.  An update of a donor is left out of the permitted requests because it may
  move the donor's donations to another blood type, the stock staying where it was
  credited.\<close>

lemma permitted_run_example:
  "permitted_run ''2026-01-05'' empty_database
     [PostDonors ''Ann'' ''O+'' ''555'' ''Pune'', PostRecipients ''Bob'' ''O+'' ''556'' ''City'',
      PostDonations 1 4 ''2026-03-01'', PostRequests 1 2, PostFulfill 1]
   \<and> \<not> permitted_run ''2026-01-05'' empty_database
     [PostDonors ''Ann'' ''O+'' ''555'' ''Pune'', PostRecipients ''Bob'' ''O+'' ''556'' ''City'',
      PostDonations 1 4 ''2026-03-01'', PostRequests 1 2, PostFulfill 1, PostFulfill 1]"
  by code_simp

lemma donor_update_moves_donations:
  "stock (serve ''2026-01-05'' empty_database
       [PostDonors ''Ann'' ''O+'' ''555'' ''Pune'', PostDonations 1 4 ''2026-03-01'',
        PostDonorsUpdate 1 ''Ann'' ''A-'' ''555'' ''Pune'']) 1 = 4
   \<and> donated_units (serve ''2026-01-05'' empty_database
       [PostDonors ''Ann'' ''O+'' ''555'' ''Pune'', PostDonations 1 4 ''2026-03-01'',
        PostDonorsUpdate 1 ''Ann'' ''A-'' ''555'' ''Pune'']) 1 = 0"
  by code_simp


section \<open>Idempotence of the migration\<close>




subsection \<open>Rowids of the inserted labels\<close>











subsection \<open>The statements that insert labels\<close>


lemma blood_type_rows_Some [simp]: "blood_type_rows (Some (BloodTypes bts)) = Inr bts"
  by (simp add: blood_type_rows_def)







subsection \<open>The statements that build and swap the tables\<close>
































subsection \<open>The second run\<close>





end
